theory Spec2Isabelle
  imports Complex_Main "HOL-Library.Sublist"
begin

section \<open>Strings, paths and Python slicing\<close>

text \<open>
  A Python \<open>str\<close> is modelled as a \<open>string\<close>; one \<open>char\<close> stands for one code point.
  A path is a string.
\<close>

type_synonym path = string

text \<open>
  Python's \<open>xs[:n]\<close>: a non-negative \<open>n\<close> keeps the first \<open>n\<close> items, a negative \<open>n\<close>
  drops the last \<open>-n\<close> items (and keeps nothing when there are fewer).
\<close>

definition py_slice_to :: "'a list \<Rightarrow> int \<Rightarrow> 'a list" where
  "py_slice_to xs n =
     (if 0 \<le> n then take (nat n) xs else take (nat (int (length xs) + n)) xs)"

section \<open>\<open>sanitize_filename\<close> (main.py, lines 42-47)\<close>

text \<open>The character class \<open>[<>:"/\\|?*]\<close> of the regular expression.\<close>

definition illegal_char :: "char \<Rightarrow> bool" where
  "illegal_char c \<longleftrightarrow>
     c \<in> {CHR ''<'', CHR ''>'', CHR '':'', CHR 0x22, CHR ''/'', CHR 0x5C,
          CHR ''|'', CHR ''?'', CHR ''*''}"

text \<open>\<open>re.sub(r'[<>:"/\\|?*]', '_', filename)\<close>: every illegal character becomes \<open>_\<close>.\<close>

definition re_sub_illegal :: "string \<Rightarrow> string" where
  "re_sub_illegal filename = map (\<lambda>c. if illegal_char c then CHR ''_'' else c) filename"

text \<open>
  \<open>os.path.splitext\<close> of the Python library (\<open>genericpath._splitext\<close> with the
  separators \<open>\\\<close> and \<open>/\<close> of \<open>ntpath\<close>).  The library finds the last separator and
  the last dot; when the dot comes after the separator and some character between the
  separator and the dot is not itself a dot, the path is split at that dot, otherwise the
  extension is empty.  Here the path is read from its end: \<open>after_dot\<close> are the characters
  behind the last dot or separator, and the test on \<open>front\<close> is the library's loop that
  skips leading dots.
\<close>

definition is_sep :: "char \<Rightarrow> bool" where
  "is_sep c \<longleftrightarrow> c = CHR 0x5C \<or> c = CHR ''/''"

definition splitext :: "path \<Rightarrow> string \<times> string" where
  "splitext p =
     (let r = rev p;
          after_dot = takeWhile (\<lambda>c. c \<noteq> CHR ''.'' \<and> \<not> is_sep c) r
      in case dropWhile (\<lambda>c. c \<noteq> CHR ''.'' \<and> \<not> is_sep c) r of
           [] \<Rightarrow> (p, [])
         | c # front \<Rightarrow>
             if c = CHR ''.'' \<and> (\<exists>x \<in> set (takeWhile (\<lambda>c. \<not> is_sep c) front). x \<noteq> CHR ''.'')
             then (rev front, CHR ''.'' # rev after_dot)
             else (p, []))"

definition sanitize_filename :: "string \<Rightarrow> string" where
  "sanitize_filename filename0 =
     (let filename = re_sub_illegal filename0;
          (base, ext) = splitext filename
      in if length filename > 255
         then py_slice_to base (255 - int (length ext)) @ ext
         else filename)"

section \<open>Exceptions\<close>

text \<open>
  The exceptions of the modelled code.  A function that can raise returns a sum, with
  \<open>Inl\<close> for the exception.  The program raises the plain \<open>Exception\<close> class with a
  message; one constructor stands for each message:
  \<^item> \<open>FFmpegFailed\<close>: the encoder exited with a non-zero code (line 842), with the
    collected diagnostic lines;
  \<^item> \<open>OutputMissing\<close>: no output file was produced (line 865);
  \<^item> \<open>OutputEmpty\<close>: the output file has size zero (line 873);
  \<^item> \<open>NoDimensions\<close>: the size of the main video is unknown (line 701);
  \<^item> \<open>NoDirectory\<close>: the output directory cannot be created (line 685).
  The others are exceptions of the Python library.
\<close>

datatype exn =
    OSError
  | ValueError
  | OverflowError
  | ZeroDivisionError
  | IndexError
  | UnicodeError
  | UnboundLocalError
  | FFmpegFailed "string list"
  | OutputMissing
  | OutputEmpty
  | NoDimensions
  | NoDirectory

section \<open>Python floats\<close>

text \<open>
  A Python \<open>float\<close> is an IEEE 754 binary64 number: a finite value, an infinity or NaN
  (the sign of zero plays no part here).  An arithmetic result is the exact result rounded
  to the nearest representable number, ties to the even one; below \<open>2 powi (- 1022)\<close> the
  spacing of the numbers stays \<open>2 powi (- 1074)\<close>, and a result of magnitude
  \<open>2 powi 1024\<close> or more is an infinity.
\<close>

datatype pyfloat = Finite real | PosInf | NegInf | NaN

text \<open>The binary exponent of a positive number: the \<open>e\<close> with \<open>2 powi e \<le> x < 2 powi (e + 1)\<close>.\<close>

function floor_log2_ge1 :: "real \<Rightarrow> int" where
  "floor_log2_ge1 x = (if x < 2 then 0 else 1 + floor_log2_ge1 (x / 2))"
  by pat_completeness auto
termination
proof (relation "measure (\<lambda>x. nat \<lfloor>x\<rfloor>)")
  show "wf (measure (\<lambda>x. nat \<lfloor>x\<rfloor>))" by simp
next
  fix x :: real assume "\<not> x < 2"
  then have x: "2 \<le> x" by simp
  then have "x / 2 \<le> x - 1" by simp
  then have "\<lfloor>x / 2\<rfloor> \<le> \<lfloor>x - 1\<rfloor>" by (rule floor_mono)
  then have "\<lfloor>x / 2\<rfloor> < \<lfloor>x\<rfloor>" by simp
  moreover have "0 < \<lfloor>x\<rfloor>" using x by simp
  ultimately show "(x / 2, x) \<in> measure (\<lambda>x. nat \<lfloor>x\<rfloor>)" by simp
qed

function floor_log2_lt1 :: "real \<Rightarrow> int" where
  "floor_log2_lt1 x = (if x \<le> 0 \<or> 1 \<le> x then 0 else floor_log2_lt1 (2 * x) - 1)"
  by pat_completeness auto
termination
proof (relation "measure (\<lambda>x. nat \<lceil>1 / x\<rceil>)")
  show "wf (measure (\<lambda>x. nat \<lceil>1 / x\<rceil>))" by simp
next
  fix x :: real assume "\<not> (x \<le> 0 \<or> 1 \<le> x)"
  then have x: "0 < x" "x < 1" by simp_all
  have y: "1 < 1 / x" using x by simp
  have h: "1 / (2 * x) = (1 / x) / 2" by simp
  have "\<lceil>(1 / x) / 2\<rceil> < \<lceil>1 / x\<rceil>"
  proof (cases "1 / x \<le> 2")
    case True
    then have "(1 / x) / 2 \<le> 1" by simp
    then have "\<lceil>(1 / x) / 2\<rceil> \<le> 1" by (simp only: ceiling_le_one)
    moreover have "1 < \<lceil>1 / x\<rceil>" using y by (simp only: one_less_ceiling)
    ultimately show ?thesis by linarith
  next
    case False
    then have "(1 / x) / 2 \<le> 1 / x - 1" by simp
    then have "\<lceil>(1 / x) / 2\<rceil> \<le> \<lceil>1 / x - 1\<rceil>" by (rule ceiling_mono)
    also have "\<lceil>1 / x - 1\<rceil> = \<lceil>1 / x\<rceil> - 1" by simp
    finally show ?thesis by simp
  qed
  moreover have "0 < \<lceil>1 / x\<rceil>" using x by simp
  ultimately have "nat \<lceil>1 / (2 * x)\<rceil> < nat \<lceil>1 / x\<rceil>" unfolding h by linarith
  then show "(2 * x, x) \<in> measure (\<lambda>x. nat \<lceil>1 / x\<rceil>)" by simp
qed

definition float_exponent :: "real \<Rightarrow> int" where
  "float_exponent x = (if 1 \<le> x then floor_log2_ge1 x else floor_log2_lt1 x)"

definition round_half_even :: "real \<Rightarrow> int" where
  "round_half_even q =
     (let n = \<lfloor>q\<rfloor>; r = q - of_int n
      in if r < 1 / 2 then n else if 1 / 2 < r then n + 1 else if even n then n else n + 1)"

text \<open>Rounding of an exact result to a float.\<close>

definition fl :: "real \<Rightarrow> pyfloat" where
  "fl x =
     (if x = 0 then Finite 0
      else let e = max (float_exponent \<bar>x\<bar>) (- 1022);
               u = 2 powi (e - 52);
               y = of_int (round_half_even (x / u)) * u
           in if 2 powi 1024 \<le> \<bar>y\<bar> then (if 0 < y then PosInf else NegInf) else Finite y)"

text \<open>The comparisons \<open>a <= b\<close> and \<open>a < b\<close>: false as soon as one side is NaN.\<close>

fun fle :: "pyfloat \<Rightarrow> pyfloat \<Rightarrow> bool" where
  "fle NaN b = False"
| "fle a NaN = False"
| "fle NegInf b = True"
| "fle a PosInf = True"
| "fle (Finite x) (Finite y) = (x \<le> y)"
| "fle a b = False"

fun flt :: "pyfloat \<Rightarrow> pyfloat \<Rightarrow> bool" where
  "flt NaN b = False"
| "flt a NaN = False"
| "flt (Finite x) (Finite y) = (x < y)"
| "flt NegInf NegInf = False"
| "flt NegInf b = True"
| "flt PosInf b = False"
| "flt a PosInf = True"
| "flt a NegInf = False"

text \<open>An infinity times or divided by a finite number \<open>y\<close> other than zero.\<close>

definition inf_signed :: "bool \<Rightarrow> real \<Rightarrow> pyfloat" where
  "inf_signed positive y = (if positive = (0 < y) then PosInf else NegInf)"

text \<open>The product \<open>a * b\<close> of two floats.\<close>

fun fmul :: "pyfloat \<Rightarrow> pyfloat \<Rightarrow> pyfloat" where
  "fmul NaN b = NaN"
| "fmul a NaN = NaN"
| "fmul (Finite x) (Finite y) = fl (x * y)"
| "fmul (Finite x) PosInf = (if x = 0 then NaN else inf_signed True x)"
| "fmul (Finite x) NegInf = (if x = 0 then NaN else inf_signed False x)"
| "fmul PosInf (Finite y) = (if y = 0 then NaN else inf_signed True y)"
| "fmul NegInf (Finite y) = (if y = 0 then NaN else inf_signed False y)"
| "fmul PosInf PosInf = PosInf"
| "fmul NegInf NegInf = PosInf"
| "fmul PosInf NegInf = NegInf"
| "fmul NegInf PosInf = NegInf"

text \<open>The quotient \<open>a / b\<close> of two floats: Python raises when the divisor is zero.\<close>

fun fdiv :: "pyfloat \<Rightarrow> pyfloat \<Rightarrow> exn + pyfloat" where
  "fdiv a (Finite y) =
     (if y = 0 then Inl ZeroDivisionError
      else (case a of
              Finite x \<Rightarrow> Inr (fl (x / y))
            | PosInf \<Rightarrow> Inr (inf_signed True y)
            | NegInf \<Rightarrow> Inr (inf_signed False y)
            | NaN \<Rightarrow> Inr NaN))"
| "fdiv NaN b = Inr NaN"
| "fdiv a NaN = Inr NaN"
| "fdiv (Finite x) b = Inr (Finite 0)"
| "fdiv a b = Inr NaN"

text \<open>
  \<open>int(x)\<close> on a float: truncation towards zero; it raises for an infinity and for NaN.
\<close>

definition py_int :: "pyfloat \<Rightarrow> exn + int" where
  "py_int a =
     (case a of
        Finite x \<Rightarrow> Inr (if 0 \<le> x then \<lfloor>x\<rfloor> else \<lceil>x\<rceil>)
      | PosInf \<Rightarrow> Inl OverflowError
      | NegInf \<Rightarrow> Inl OverflowError
      | NaN \<Rightarrow> Inl ValueError)"

text \<open>
  \<open>n / b\<close> for an \<open>int\<close> \<open>n\<close> and a float \<open>b\<close>: the integer is converted to a float,
  which raises when it is too large, and the floats are divided.
\<close>

definition int_truediv :: "int \<Rightarrow> pyfloat \<Rightarrow> exn + pyfloat" where
  "int_truediv n b =
     (case fl (of_int n) of
        Finite x \<Rightarrow> fdiv (Finite x) b
      | PosInf \<Rightarrow> Inl OverflowError
      | NegInf \<Rightarrow> Inl OverflowError
      | NaN \<Rightarrow> Inl OverflowError)"

section \<open>\<open>get_video_duration\<close> (main.py, lines 49-75)\<close>

text \<open>
  What OpenCV reports for a path: the constructor \<open>cv2.VideoCapture\<close> raises or gives a
  capture object.  Each method of the object raises or returns: \<open>isOpened()\<close> a truth
  value, \<open>get\<close> the float of a property, \<open>release()\<close> nothing.
\<close>

record capture =
  isOpened :: "exn + bool"
  CAP_PROP_FPS :: "exn + pyfloat"
  CAP_PROP_FRAME_COUNT :: "exn + pyfloat"
  release :: "exn option"

type_synonym cv2 = "path \<Rightarrow> exn + capture"

text \<open>
  Lines 57-71, once the capture is known to be open.  The value 0 that the function
  returns is the float zero here.
\<close>

definition read_duration :: "capture \<Rightarrow> exn + pyfloat" where
  "read_duration cap =
     (case CAP_PROP_FPS cap of
        Inl e \<Rightarrow> Inl e
      | Inr fps \<Rightarrow>
          (case CAP_PROP_FRAME_COUNT cap of
             Inl e \<Rightarrow> Inl e
           | Inr frames \<Rightarrow>
               (case py_int frames of
                  Inl e \<Rightarrow> Inl e
                | Inr frame_count \<Rightarrow>
                    if fle fps (Finite 0) \<or> frame_count \<le> 0 then Inr (Finite 0)
                    else (case int_truediv frame_count fps of
                            Inl e \<Rightarrow> Inl e
                          | Inr duration \<Rightarrow>
                              (case release cap of
                                 Some e \<Rightarrow> Inl e
                               | None \<Rightarrow>
                                   if flt (Finite 0) duration then Inr duration
                                   else Inr (Finite 0))))))"

text \<open>The body of the \<open>try\<close> block.\<close>

definition get_video_duration_try :: "cv2 \<Rightarrow> path \<Rightarrow> exn + pyfloat" where
  "get_video_duration_try cv video_path =
     (case cv video_path of
        Inl e \<Rightarrow> Inl e
      | Inr cap \<Rightarrow>
          (case isOpened cap of
             Inl e \<Rightarrow> Inl e
           | Inr opened \<Rightarrow> if \<not> opened then Inr (Finite 0) else read_duration cap))"

text \<open>The function: \<open>except Exception\<close> turns every exception of the body into 0.\<close>

definition get_video_duration :: "cv2 \<Rightarrow> path \<Rightarrow> exn + pyfloat" where
  "get_video_duration cv video_path =
     (case get_video_duration_try cv video_path of
        Inl e \<Rightarrow> Inr (Finite 0)
      | Inr duration \<Rightarrow> Inr duration)"

section \<open>The application object\<close>

text \<open>
  The fields of \<open>VideoOverlayApp\<close> that the modelled methods read or write.  A process
  handle is identified by a number.
\<close>

type_synonym handle = nat

record app =
  main_video_paths :: "path list"
  overlay_video_paths :: "path list"
  main_video_durations :: "path \<rightharpoonup> pyfloat"
  overlay_video_durations :: "path \<rightharpoonup> pyfloat"
  output_directory :: "path option"
  processing :: bool
  paused :: bool
  current_processes :: "string \<rightharpoonup> handle"
  use_gpu :: bool

section \<open>\<open>get_suitable_overlay_videos\<close> and \<open>select_random_overlay_video\<close> (lines 290-339)\<close>

text \<open>The \<open>for\<close> loop over the overlay paths; \<open>suitable_videos\<close> is the list built so far.\<close>

fun suitable_loop :: "cv2 \<Rightarrow> pyfloat \<Rightarrow> path list \<Rightarrow> path list \<Rightarrow> exn + path list" where
  "suitable_loop cv main_duration [] suitable_videos = Inr suitable_videos"
| "suitable_loop cv main_duration (overlay_path # rest) suitable_videos =
     (case get_video_duration cv overlay_path of
        Inl e \<Rightarrow> Inl e
      | Inr overlay_duration \<Rightarrow>
          if fle overlay_duration (Finite 0)
          then suitable_loop cv main_duration rest suitable_videos
          else let min_duration = main_duration;
                   max_duration = fmul main_duration (Finite 3)
               in if fle min_duration overlay_duration \<and> fle overlay_duration max_duration
                  then suitable_loop cv main_duration rest (suitable_videos @ [overlay_path])
                  else suitable_loop cv main_duration rest suitable_videos)"

definition get_suitable_overlay_videos_try :: "cv2 \<Rightarrow> app \<Rightarrow> path \<Rightarrow> exn + path list" where
  "get_suitable_overlay_videos_try cv self main_video_path =
     (case get_video_duration cv main_video_path of
        Inl e \<Rightarrow> Inl e
      | Inr main_duration \<Rightarrow>
          if fle main_duration (Finite 0) then Inr []
          else suitable_loop cv main_duration (overlay_video_paths self) [])"

definition get_suitable_overlay_videos :: "cv2 \<Rightarrow> app \<Rightarrow> path \<Rightarrow> exn + path list" where
  "get_suitable_overlay_videos cv self main_video_path =
     (case get_suitable_overlay_videos_try cv self main_video_path of
        Inl e \<Rightarrow> Inr []
      | Inr suitable_videos \<Rightarrow> Inr suitable_videos)"

text \<open>
  \<open>random.choice(seq)\<close> is \<open>seq[randbelow(len(seq))]\<close> and raises \<open>IndexError\<close> on an empty
  sequence.  The number drawn by the generator is an input \<open>rnd\<close> of the model;
  \<open>randbelow n\<close> is a number below \<open>n\<close>, and every number below \<open>n\<close> is drawn by some \<open>rnd\<close>.
\<close>

definition randbelow :: "nat \<Rightarrow> nat \<Rightarrow> nat" where
  "randbelow rnd n = rnd mod n"

definition random_choice :: "nat \<Rightarrow> 'a list \<Rightarrow> exn + 'a" where
  "random_choice rnd seq =
     (if seq = [] then Inl IndexError else Inr (seq ! randbelow rnd (length seq)))"

definition select_random_overlay_video :: "nat \<Rightarrow> cv2 \<Rightarrow> app \<Rightarrow> path \<Rightarrow> exn + path option" where
  "select_random_overlay_video rnd cv self main_video_path =
     (case get_suitable_overlay_videos cv self main_video_path of
        Inl e \<Rightarrow> Inl e
      | Inr suitable_videos \<Rightarrow>
          if suitable_videos = [] then Inr None
          else (case random_choice rnd suitable_videos of
                  Inl e \<Rightarrow> Inl e
                | Inr overlay \<Rightarrow> Inr (Some overlay)))"

text \<open>The duration that the probe reports for a path (0 when it reports none).\<close>

definition probed_duration :: "cv2 \<Rightarrow> path \<Rightarrow> pyfloat" where
  "probed_duration cv p =
     (case get_video_duration cv p of Inl e \<Rightarrow> Finite 0 | Inr d \<Rightarrow> d)"

section \<open>\<open>check_gpu_support\<close> (lines 1125-1177) and the encoder settings (lines 703-756)\<close>

text \<open>
  What the two kinds of \<open>subprocess.run\<close> calls give: the call that lists the encoders
  raises or gives the text of the standard output; the one-second test encode with a given
  encoder raises or gives a return code.
\<close>

record ffmpeg =
  run_encoders :: "exn + string"
  run_test_encode :: "string \<Rightarrow> exn + int"

datatype gpu = NVIDIA | AMD

text \<open>The first \<open>if\<close> of the \<open>try\<close> block: the value of \<open>gpu_type\<close> after it.\<close>

definition check_nvenc :: "ffmpeg \<Rightarrow> string \<Rightarrow> exn + gpu option" where
  "check_nvenc ff encoders =
     (if sublist ''h264_nvenc'' encoders
      then (case run_test_encode ff ''h264_nvenc'' of
              Inl e \<Rightarrow> Inl e
            | Inr returncode \<Rightarrow> Inr (if returncode = 0 then Some NVIDIA else None))
      else Inr None)"

text \<open>The second \<open>if\<close>: it runs only when \<open>gpu_type\<close> is still \<open>None\<close>.\<close>

definition check_amf :: "ffmpeg \<Rightarrow> string \<Rightarrow> gpu option \<Rightarrow> exn + gpu option" where
  "check_amf ff encoders gpu_type =
     (if gpu_type = None \<and> sublist ''h264_amf'' encoders
      then (case run_test_encode ff ''h264_amf'' of
              Inl e \<Rightarrow> Inl e
            | Inr returncode \<Rightarrow> Inr (if returncode = 0 then Some AMD else gpu_type))
      else Inr gpu_type)"

definition check_gpu_support_try :: "ffmpeg \<Rightarrow> exn + gpu option" where
  "check_gpu_support_try ff =
     (case run_encoders ff of
        Inl e \<Rightarrow> Inl e
      | Inr encoders \<Rightarrow>
          (case check_nvenc ff encoders of
             Inl e \<Rightarrow> Inl e
           | Inr gpu_type \<Rightarrow> check_amf ff encoders gpu_type))"

definition check_gpu_support :: "ffmpeg \<Rightarrow> exn + gpu option" where
  "check_gpu_support ff =
     (case check_gpu_support_try ff of
        Inl e \<Rightarrow> Inr None
      | Inr gpu_type \<Rightarrow> Inr gpu_type)"

text \<open>Lines 704-710 of \<open>process_video\<close>: the probe runs only when the GPU option is set.\<close>

definition negotiate_gpu :: "app \<Rightarrow> ffmpeg \<Rightarrow> exn + gpu option" where
  "negotiate_gpu self ff = (if use_gpu self then check_gpu_support ff else Inr None)"

record encoder_settings =
  video_encoder :: string
  encoder_preset :: string
  gpu_params :: "string list"
  hwaccel :: string

text \<open>Lines 713-756 and the \<open>-hwaccel\<close> argument of line 771.\<close>

definition encoder_settings_of :: "gpu option \<Rightarrow> encoder_settings" where
  "encoder_settings_of gpu_type =
     (if gpu_type = Some NVIDIA then
        \<lparr>video_encoder = ''h264_nvenc'', encoder_preset = ''p1'',
         gpu_params = [''-rc'', ''vbr'', ''-b:v'', ''8M'', ''-maxrate'', ''12M'',
                       ''-bufsize'', ''16M'', ''-profile:v'', ''high'', ''-level'', ''5.2'',
                       ''-spatial-aq'', ''1'', ''-temporal-aq'', ''1'', ''-cq'', ''16'',
                       ''-qmin'', ''1'', ''-qmax'', ''51'', ''-rc-lookahead'', ''32''],
         hwaccel = ''auto''\<rparr>
      else if gpu_type = Some AMD then
        \<lparr>video_encoder = ''h264_amf'', encoder_preset = ''quality'',
         gpu_params = [''-quality'', ''quality'', ''-rc'', ''vbr_peak'', ''-b:v'', ''8M'',
                       ''-maxrate'', ''12M'', ''-bufsize'', ''16M'', ''-profile:v'', ''high'',
                       ''-qmin'', ''1'', ''-qmax'', ''51''],
         hwaccel = ''auto''\<rparr>
      else
        \<lparr>video_encoder = ''libx264'', encoder_preset = ''slower'',
         gpu_params = [''-b:v'', ''8M'', ''-maxrate'', ''12M'', ''-bufsize'', ''16M'',
                       ''-profile:v'', ''high'', ''-level'', ''5.2'',
                       ''-movflags'', ''+faststart'', ''-tune'', ''film'', ''-x264opts'',
                       ''me=umh:subme=10:ref=5:b-adapt=2:direct=auto:rc-lookahead=60:no-fast-pskip=1:no-dct-decimate=1'',
                       ''-psy-rd'', ''1.0:0.15''],
         hwaccel = ''none''\<rparr>)"

section \<open>\<open>remove_selected_video\<close> and \<open>remove_selected_overlay\<close> (lines 1052-1070)\<close>

text \<open>
  The selection is the tuple of row numbers that \<open>curselection()\<close> returns.  A method that
  changes the object returns the exception raised, if any, with the object as it is then.
  \<open>paths.pop(index)\<close> and \<open>del paths[index]\<close> raise \<open>IndexError\<close> out of range.
\<close>

fun remove_main_loop :: "nat list \<Rightarrow> app \<Rightarrow> exn option \<times> app" where
  "remove_main_loop [] self = (None, self)"
| "remove_main_loop (index # rest) self =
     (if index < length (main_video_paths self)
      then remove_main_loop rest
             (self\<lparr>main_video_paths :=
                     take index (main_video_paths self) @ drop (Suc index) (main_video_paths self)\<rparr>)
      else (Some IndexError, self))"

definition remove_selected_video :: "nat list \<Rightarrow> app \<Rightarrow> exn option \<times> app" where
  "remove_selected_video selected self = remove_main_loop (rev selected) self"

fun remove_overlay_loop :: "nat list \<Rightarrow> app \<Rightarrow> exn option \<times> app" where
  "remove_overlay_loop [] self = (None, self)"
| "remove_overlay_loop (index # rest) self =
     (if index < length (overlay_video_paths self)
      then let path = overlay_video_paths self ! index;
               self1 = (if path \<in> dom (overlay_video_durations self)
                        then self\<lparr>overlay_video_durations :=
                                    (overlay_video_durations self)(path := None)\<rparr>
                        else self)
           in remove_overlay_loop rest
                (self1\<lparr>overlay_video_paths :=
                         take index (overlay_video_paths self1) @
                         drop (Suc index) (overlay_video_paths self1)\<rparr>)
      else (Some IndexError, self))"

definition remove_selected_overlay :: "nat list \<Rightarrow> app \<Rightarrow> exn option \<times> app" where
  "remove_selected_overlay selected self =
     (if selected = [] then (None, self) else remove_overlay_loop (rev selected) self)"

text \<open>
  What \<open>curselection()\<close> returns for a list box that shows the given list: row numbers of
  the list, in increasing order.
\<close>

definition valid_selection :: "nat list \<Rightarrow> 'a list \<Rightarrow> bool" where
  "valid_selection selected paths \<longleftrightarrow>
     sorted selected \<and> distinct selected \<and> (\<forall>i \<in> set selected. i < length paths)"

section \<open>\<open>process_video\<close> (lines 630-889): one job, step by step\<close>

subsection \<open>The world of a job\<close>

text \<open>
  The files that exist, with their sizes, and the files that \<open>os.remove\<close> cannot delete
  (it raises for them, as it does for a missing file).
\<close>

record world =
  files :: "path \<rightharpoonup> nat"
  undeletable :: "path set"

definition os_remove :: "path \<Rightarrow> world \<Rightarrow> exn + world" where
  "os_remove p w =
     (if p \<notin> dom (files w) \<or> p \<in> undeletable w then Inl OSError
      else Inr (w\<lparr>files := (files w)(p := None)\<rparr>))"

definition os_path_getsize :: "path \<Rightarrow> world \<Rightarrow> exn + nat" where
  "os_path_getsize p w = (case files w p of None \<Rightarrow> Inl OSError | Some n \<Rightarrow> Inr n)"

text \<open>
  The library and system calls whose results the method only passes on: the functions of
  \<open>os.path\<close>, whether a directory exists and whether \<open>os.makedirs\<close> raises for it,
  whether encoding a string as UTF-8 raises, the pair that \<open>get_video_dimensions\<close> returns,
  and \<open>subprocess.Popen\<close>, which raises or gives a handle.
\<close>

record os_env =
  basename :: "path \<Rightarrow> string"
  dirname :: "path \<Rightarrow> path"
  join :: "path \<Rightarrow> string \<Rightarrow> path"
  normpath :: "path \<Rightarrow> path"
  dir_exists :: "path \<Rightarrow> bool"
  makedirs_raises :: "path \<Rightarrow> bool"
  encode_raises :: "string \<Rightarrow> bool"
  get_video_dimensions :: "path \<Rightarrow> int option \<times> int option"
  popen :: "exn + handle"

text \<open>\<open>normalize_path\<close> (lines 94-116) on a \<open>str\<close>.\<close>

definition normalize_path :: "os_env \<Rightarrow> path \<Rightarrow> path" where
  "normalize_path env path =
     map (\<lambda>c. if c = CHR 0x5C then CHR ''/'' else c) (normpath env path)"

text \<open>\<open>ensure_directory\<close> (lines 118-127): \<open>False\<close> when creating the directory raises.\<close>

definition ensure_directory :: "os_env \<Rightarrow> path \<Rightarrow> bool" where
  "ensure_directory env path =
     (let directory = dirname env path
      in if directory \<noteq> [] \<and> \<not> dir_exists env directory
         then \<not> makedirs_raises env directory
         else True)"

text \<open>Lines 653-656.\<close>

definition resolve_output_dir :: "os_env \<Rightarrow> app \<Rightarrow> path \<Rightarrow> path" where
  "resolve_output_dir env self main_video_path =
     (case output_directory self of
        Some d \<Rightarrow> if d \<noteq> [] \<and> dir_exists env d then d
                  else join env (dirname env main_video_path) ''output''
      | None \<Rightarrow> join env (dirname env main_video_path) ''output'')"

text \<open>Lines 664-666.\<close>

definition output_name :: "os_env \<Rightarrow> path \<Rightarrow> path \<Rightarrow> string" where
  "output_name env main_video_path overlay_video_path =
     ''output_'' @ fst (splitext (basename env main_video_path)) @ ''_C_'' @
     fst (splitext (basename env overlay_video_path)) @ ''.mp4''"

text \<open>\<open>if not width or not height\<close>: a missing or zero value is false.\<close>

definition falsy :: "int option \<Rightarrow> bool" where
  "falsy v \<longleftrightarrow> v = None \<or> v = Some 0"

subsection \<open>The encoder process\<close>

text \<open>
  What the method observes of the process it spawned.  Each turn of the monitoring loop
  (line 813) sees the result of \<open>process.poll()\<close>, the two flags \<open>self.processing\<close> and
  \<open>self.paused\<close> as other threads have set them by then, and a line of the error stream.
  \<open>terminated\<close> is what lines 815-819 leave: \<open>terminate()\<close> raises, or the return code is
  set by \<open>wait\<close>, or it is still \<open>None\<close> after \<open>kill()\<close>.  \<open>produced\<close> is the file at the
  output path once the process has ended: none, or a file of some size.
\<close>

record tick =
  poll :: "int option"
  processing_now :: bool
  paused_now :: bool
  readline :: string

record encoder_run =
  ticks :: "tick list"
  terminated :: "exn + int option"
  stderr_read :: string
  close_raises :: bool
  produced :: "nat option"

definition is_space :: "char \<Rightarrow> bool" where
  "is_space c \<longleftrightarrow>
     c \<in> {CHR 0x09, CHR 0x0A, CHR 0x0B, CHR 0x0C, CHR 0x0D, CHR 0x1C, CHR 0x1D, CHR 0x1E,
          CHR 0x1F, CHR 0x20, CHR 0x85, CHR 0xA0}"

definition py_strip :: "string \<Rightarrow> string" where
  "py_strip s = rev (dropWhile is_space (rev (dropWhile is_space s)))"

text \<open>
  The loop of lines 813-833.  It ends when the process has exited or when the batch has
  been stopped; when the observations run out before that, the loop is still running and
  there is no result.
\<close>

fun monitor :: "tick list \<Rightarrow> exn + int option \<Rightarrow> string list \<Rightarrow>
    ((exn + int option) \<times> string list) option" where
  "monitor [] term error_output = None"
| "monitor (t # ts) term error_output =
     (case poll t of
        Some returncode \<Rightarrow> Some (Inr (Some returncode), error_output)
      | None \<Rightarrow>
          if \<not> processing_now t then Some (term, error_output)
          else if paused_now t then monitor ts term error_output
          else let stderr_line = py_strip (readline t)
               in monitor ts term
                    (if readline t \<noteq> [] \<and> stderr_line \<noteq> []
                     then error_output @ [stderr_line] else error_output))"

text \<open>
  The loop finds the batch stopped while the process is still running: at every turn up to
  there \<open>poll()\<close> gives \<open>None\<close>, and at the last of them \<open>self.processing\<close> is false
  (line 814), so that lines 815-820 terminate the process and leave the loop.
\<close>

fun stop_observed :: "tick list \<Rightarrow> bool" where
  "stop_observed [] = False"
| "stop_observed (t # ts) = (poll t = None \<and> (\<not> processing_now t \<or> stop_observed ts))"

subsection \<open>The method\<close>

text \<open>
  The state of the method when control leaves the outer \<open>try\<close> block: the exception on its
  way, if any; the values of the local variables \<open>output_path\<close> and \<open>process_key\<close>, which
  are unbound (\<open>None\<close>) until lines 667 and 805 have run; the object and the world.
\<close>

record frame =
  raised :: "exn option"
  output_path :: "path option"
  process_key :: "string option"
  self_now :: app
  world_now :: world

text \<open>
  Lines 856-875: the check of the output file.  The listing of the output directory for
  the log (line 863) is taken to succeed: the directory has been made sure of before.
\<close>

definition verify_output :: "path \<Rightarrow> string \<Rightarrow> app \<Rightarrow> world \<Rightarrow> frame" where
  "verify_output out key self w =
     (if out \<notin> dom (files w)
      then \<lparr>raised = Some OutputMissing, output_path = Some out, process_key = Some key,
            self_now = self, world_now = w\<rparr>
      else (case os_path_getsize out w of
              Inl e \<Rightarrow> \<lparr>raised = Some e, output_path = Some out, process_key = Some key,
                         self_now = self, world_now = w\<rparr>
            | Inr sz \<Rightarrow>
                if sz = 0
                then \<lparr>raised = Some OutputEmpty, output_path = Some out, process_key = Some key,
                      self_now = self,
                      world_now = (case os_remove out w of Inl e \<Rightarrow> w | Inr w' \<Rightarrow> w')\<rparr>
                else \<lparr>raised = None, output_path = Some out, process_key = Some key,
                      self_now = self, world_now = w\<rparr>))"

text \<open>Lines 836-842: the exception of the inner \<open>try\<close> block, if any.\<close>

definition check_returncode :: "encoder_run \<Rightarrow> exn + int option \<Rightarrow> string list \<Rightarrow> exn option" where
  "check_returncode run res error_output =
     (case res of
        Inl e \<Rightarrow> Some e
      | Inr returncode \<Rightarrow>
          if returncode \<noteq> Some 0
          then Some (FFmpegFailed
                 (if stderr_read run \<noteq> [] then error_output @ [py_strip (stderr_read run)]
                  else error_output))
          else None)"

text \<open>
  Lines 808-875: the inner \<open>try\<close> with its \<open>finally\<close> (the handles are closed, which may
  raise and then skips the removal of line 854), then the check of the output.
\<close>

definition supervise :: "encoder_run \<Rightarrow> path \<Rightarrow> string \<Rightarrow> app \<Rightarrow> world \<Rightarrow> frame option" where
  "supervise run out key self w =
     (case monitor (ticks run) (terminated run) [] of
        None \<Rightarrow> None
      | Some (res, error_output) \<Rightarrow>
          let w1 = w\<lparr>files := (files w)(out := produced run)\<rparr>;
              inner = check_returncode run res error_output;
              after_finally = (if close_raises run then Some OSError else inner);
              self1 = (if close_raises run then self
                       else if key \<in> dom (current_processes self)
                       then self\<lparr>current_processes := (current_processes self)(key := None)\<rparr>
                       else self)
          in case after_finally of
               Some e \<Rightarrow> Some \<lparr>raised = Some e, output_path = Some out, process_key = Some key,
                                self_now = self1, world_now = w1\<rparr>
             | None \<Rightarrow> Some (verify_output out key self1 w1))"

text \<open>
  Lines 633-806, up to the registration of the process: either the method leaves the
  \<open>try\<close> block early (\<open>Inl\<close>, with the frame at that point), or the process is spawned and
  registered (\<open>Inr\<close>, with the output path, the key and the object).  The encoder
  settings of lines 703-756 (see \<open>negotiate_gpu\<close> and \<open>encoder_settings_of\<close>) raise
  nothing and only shape the command line, which is not modelled.
\<close>


definition leave :: "exn option \<Rightarrow> path option \<Rightarrow> app \<Rightarrow> world \<Rightarrow> frame" where
  "leave e out self w =
     \<lparr>raised = e, output_path = out, process_key = None, self_now = self, world_now = w\<rparr>"

definition prepare :: "os_env \<Rightarrow> app \<Rightarrow> world \<Rightarrow> path \<Rightarrow> path \<Rightarrow> frame + (path \<times> string \<times> app)" where
  "prepare env self w main_video_path overlay_video_path =
     (if \<not> processing self then Inl (leave None None self w)
      else let output_dir = resolve_output_dir env self main_video_path
      in if makedirs_raises env output_dir then Inl (leave (Some OSError) None self w)
      else let output_path0 =
                 join env output_dir
                   (sanitize_filename (output_name env main_video_path overlay_video_path))
      in if encode_raises env main_video_path \<or> encode_raises env overlay_video_path \<or>
            encode_raises env output_path0
         then Inl (leave (Some UnicodeError) (Some output_path0) self w)
      else let main_n = normalize_path env main_video_path;
               overlay_n = normalize_path env overlay_video_path;
               out = normalize_path env output_path0
      in if \<not> ensure_directory env out then Inl (leave (Some NoDirectory) (Some out) self w)
      else let (width, height) = get_video_dimensions env main_n
      in if falsy width \<or> falsy height then Inl (leave (Some NoDimensions) (Some out) self w)
      else (case popen env of
              Inl e \<Rightarrow> Inl (leave (Some e) (Some out) self w)
            | Inr process \<Rightarrow>
                let key = main_n @ ''_'' @ overlay_n
                in Inr (out, key,
                        self\<lparr>current_processes := (current_processes self)(key \<mapsto> process)\<rparr>)))"

definition process_video_try :: "os_env \<Rightarrow> encoder_run \<Rightarrow> app \<Rightarrow> world \<Rightarrow> path \<Rightarrow> path \<Rightarrow>
    frame option" where
  "process_video_try env run self w main_video_path overlay_video_path =
     (case prepare env self w main_video_path overlay_video_path of
        Inl fr \<Rightarrow> Some fr
      | Inr (out, key, self1) \<Rightarrow> supervise run out key self1 w)"

text \<open>
  Lines 877-885, the \<open>except\<close> clause: the output file is removed if it exists; an
  exception in there (the removal fails, or \<open>output_path\<close> is unbound) is swallowed, and the
  exception that was caught is raised again.
\<close>

definition except_clause :: "frame \<Rightarrow> world" where
  "except_clause fr =
     (case output_path fr of
        None \<Rightarrow> world_now fr
      | Some out \<Rightarrow>
          if out \<in> dom (files (world_now fr))
          then (case os_remove out (world_now fr) of Inl e \<Rightarrow> world_now fr | Inr w' \<Rightarrow> w')
          else world_now fr)"

text \<open>
  Lines 886-889, the \<open>finally\<close> clause: reading \<open>process_key\<close> raises when the variable
  is unbound, and this exception replaces the one on its way.
\<close>

definition finally_clause :: "frame \<Rightarrow> exn option \<times> app" where
  "finally_clause fr =
     (case process_key fr of
        None \<Rightarrow> (Some UnboundLocalError, self_now fr)
      | Some key \<Rightarrow>
          (raised fr,
           if key \<in> dom (current_processes (self_now fr))
           then (self_now fr)\<lparr>current_processes :=
                                (current_processes (self_now fr))(key := None)\<rparr>
           else self_now fr))"

text \<open>
  The method: the exception it ends with (if any), the object and the world.  There is no
  result (\<open>None\<close>) while the monitoring loop runs.
\<close>

definition process_video :: "os_env \<Rightarrow> encoder_run \<Rightarrow> app \<Rightarrow> world \<Rightarrow> path \<Rightarrow> path \<Rightarrow>
    (exn option \<times> app \<times> world) option" where
  "process_video env run self w main_video_path overlay_video_path =
     (case process_video_try env run self w main_video_path overlay_video_path of
        None \<Rightarrow> None
      | Some fr \<Rightarrow>
          let w' = (if raised fr = None then world_now fr else except_clause fr);
              (e, self') = finally_clause fr
          in Some (e, self', w'))"

section \<open>A batch run: the driver thread and its job threads (lines 630-941)\<close>

text \<open>
  \<open>_process_videos_thread\<close> (the driver) walks through \<open>main_video_paths\<close>; for a main
  video with a suitable overlay it starts a thread that runs \<open>process_video\<close> and joins it.
  The threads share the semaphore, the dictionary \<open>current_processes\<close> and the flag
  \<open>processing\<close>; the user interface thread can stop the batch at any moment.  The run is
  modelled as a transition system in which any thread that can move may move next.

  Where a job thread is in \<open>process_video\<close>:
  \<^item> \<open>NotStarted\<close>: its thread has not been started;
  \<^item> \<open>Waiting\<close>: at line 632, waiting for the semaphore;
  \<^item> \<open>Holding\<close>: inside the \<open>with\<close> block, before line 806;
  \<^item> \<open>Registered\<close>: lines 806-854, its process is in \<open>current_processes\<close>;
  \<^item> \<open>Unregistered\<close>: lines 856-875, after the removal of line 854, still inside \<open>with\<close>;
  \<^item> \<open>LeavingUnbound\<close>: the \<open>with\<close> block is left and \<open>process_key\<close> was never bound
    (the \<open>return\<close> of line 634 or an exception before line 805);
  \<^item> \<open>LeavingBound\<close>: the \<open>with\<close> block is left and \<open>process_key\<close> is bound;
  \<^item> \<open>Finished\<close>: the method has ended, by a return or by an exception.
\<close>

datatype pc =
    NotStarted | Waiting | Holding | Registered | Unregistered
  | LeavingUnbound | LeavingBound | Finished

text \<open>
  Where the driver is: at the head of the loop with the index of the next main video
  (line 897), between \<open>thread.start()\<close> and the return of \<open>thread.join()\<close> for the job of
  a main video (lines 919-926), or past its \<open>finally\<close> clause.
\<close>

datatype driver_pc = Fetch nat | Join nat | Stopped

text \<open>
  The state of a run.  Job \<open>i\<close> is the job of the \<open>i\<close>-th main video; the handle of its
  process is \<open>i\<close>.  \<open>permits\<close> is the value of the semaphore and \<open>holders\<close> the jobs that
  have acquired it and not yet released it.
\<close>

record batch =
  driver :: driver_pc
  jobs :: "pc list"
  permits :: nat
  holders :: "nat set"
  active :: "string \<rightharpoonup> handle"
  flag :: bool

datatype action =
    Skip nat | Dispatch nat | Joined nat | Break | Exhausted | DriverFails
  | Acquire nat | LeaveEarly nat | Register nat | Unregister nat | CloseFails nat
  | Release nat | FinishUnbound nat | FinishBound nat
  | Stop

definition driver_finally :: "batch \<Rightarrow> batch" where
  "driver_finally s = s\<lparr>driver := Stopped, flag := False, active := Map.empty\<rparr>"

text \<open>
  The moves.  \<open>key i\<close> is the \<open>process_key\<close> of job \<open>i\<close>.
  \<^item> Driver: \<open>Break\<close> (line 898), \<open>Skip\<close> (the two \<open>continue\<close> of lines 904 and 909),
    \<open>Dispatch\<close> (line 919), \<open>Joined\<close> (line 926 returns, which needs the thread to have
    ended), \<open>Exhausted\<close> (the list is used up), \<open>DriverFails\<close> (an exception in the loop);
    the last four of these run the \<open>finally\<close> clause of lines 935-941.
  \<^item> Job: \<open>Acquire\<close> (line 632, needs a free permit), \<open>LeaveEarly\<close> (line 634, or an
    exception before line 805), \<open>Register\<close> (line 806), \<open>Unregister\<close> (lines 853-854),
    \<open>CloseFails\<close> (an exception in lines 846-850, which skips line 854), \<open>Release\<close> (the
    end of the \<open>with\<close> block), \<open>FinishBound\<close> (lines 888-889), \<open>FinishUnbound\<close> (line 888
    raises, \<open>process_key\<close> being unbound).
  \<^item> User interface: \<open>Stop\<close> (\<open>stop_processing\<close>, lines 943-967).
\<close>

inductive step :: "(nat \<Rightarrow> string) \<Rightarrow> batch \<Rightarrow> action \<Rightarrow> batch \<Rightarrow> bool"
  for key :: "nat \<Rightarrow> string" where
  Break:
    "driver s = Fetch i \<Longrightarrow> i < length (jobs s) \<Longrightarrow> \<not> flag s \<Longrightarrow>
     step key s Break (driver_finally s)"
| Skip:
    "driver s = Fetch i \<Longrightarrow> i < length (jobs s) \<Longrightarrow> flag s \<Longrightarrow>
     step key s (Skip i) (s\<lparr>driver := Fetch (Suc i)\<rparr>)"
| Dispatch:
    "driver s = Fetch i \<Longrightarrow> i < length (jobs s) \<Longrightarrow> flag s \<Longrightarrow>
     step key s (Dispatch i) (s\<lparr>driver := Join i, jobs := (jobs s)[i := Waiting]\<rparr>)"
| Joined:
    "driver s = Join i \<Longrightarrow> jobs s ! i = Finished \<Longrightarrow>
     step key s (Joined i) (s\<lparr>driver := Fetch (Suc i)\<rparr>)"
| Exhausted:
    "driver s = Fetch (length (jobs s)) \<Longrightarrow>
     step key s Exhausted (driver_finally s)"
| DriverFails:
    "driver s \<noteq> Stopped \<Longrightarrow>
     step key s DriverFails (driver_finally s)"
| Acquire:
    "i < length (jobs s) \<Longrightarrow> jobs s ! i = Waiting \<Longrightarrow> 0 < permits s \<Longrightarrow>
     step key s (Acquire i)
       (s\<lparr>jobs := (jobs s)[i := Holding], permits := permits s - 1,
          holders := insert i (holders s)\<rparr>)"
| LeaveEarly:
    "i < length (jobs s) \<Longrightarrow> jobs s ! i = Holding \<Longrightarrow>
     step key s (LeaveEarly i)
       (s\<lparr>jobs := (jobs s)[i := LeavingUnbound], permits := permits s + 1,
          holders := holders s - {i}\<rparr>)"
| Register:
    "i < length (jobs s) \<Longrightarrow> jobs s ! i = Holding \<Longrightarrow>
     step key s (Register i)
       (s\<lparr>jobs := (jobs s)[i := Registered], active := (active s)(key i \<mapsto> i)\<rparr>)"
| Unregister:
    "i < length (jobs s) \<Longrightarrow> jobs s ! i = Registered \<Longrightarrow>
     step key s (Unregister i)
       (s\<lparr>jobs := (jobs s)[i := Unregistered], active := (active s)(key i := None)\<rparr>)"
| CloseFails:
    "i < length (jobs s) \<Longrightarrow> jobs s ! i = Registered \<Longrightarrow>
     step key s (CloseFails i)
       (s\<lparr>jobs := (jobs s)[i := LeavingBound], permits := permits s + 1,
          holders := holders s - {i}\<rparr>)"
| Release:
    "i < length (jobs s) \<Longrightarrow> jobs s ! i = Unregistered \<Longrightarrow>
     step key s (Release i)
       (s\<lparr>jobs := (jobs s)[i := LeavingBound], permits := permits s + 1,
          holders := holders s - {i}\<rparr>)"
| FinishUnbound:
    "i < length (jobs s) \<Longrightarrow> jobs s ! i = LeavingUnbound \<Longrightarrow>
     step key s (FinishUnbound i) (s\<lparr>jobs := (jobs s)[i := Finished]\<rparr>)"
| FinishBound:
    "i < length (jobs s) \<Longrightarrow> jobs s ! i = LeavingBound \<Longrightarrow>
     step key s (FinishBound i)
       (s\<lparr>jobs := (jobs s)[i := Finished], active := (active s)(key i := None)\<rparr>)"
| Stop:
    "flag s \<Longrightarrow>
     step key s Stop (s\<lparr>flag := False, active := Map.empty\<rparr>)"

text \<open>
  The start of a batch of \<open>n\<close> main videos with \<open>k\<close> permits (\<open>start_processing\<close> has set
  the flag), and the states that a run can reach.
\<close>

definition init :: "nat \<Rightarrow> nat \<Rightarrow> batch" where
  "init k n =
     \<lparr>driver = Fetch 0, jobs = replicate n NotStarted, permits = k, holders = {},
      active = Map.empty, flag = True\<rparr>"

inductive reachable :: "(nat \<Rightarrow> string) \<Rightarrow> nat \<Rightarrow> nat \<Rightarrow> batch \<Rightarrow> bool"
  for key :: "nat \<Rightarrow> string" and k :: nat and n :: nat where
  start: "reachable key k n (init k n)"
| move: "reachable key k n s \<Longrightarrow> step key s a s' \<Longrightarrow> reachable key k n s'"

text \<open>A job thread is running from \<open>thread.start()\<close> until its method has ended.\<close>

definition running :: "pc \<Rightarrow> bool" where
  "running p \<longleftrightarrow> p \<noteq> NotStarted \<and> p \<noteq> Finished"

subsection \<open>Invariants\<close>

text \<open>
  Invariants of a run.  \<open>ordered\<close> says where job threads can be, given where the driver
  is: at the head of the loop no job is running and the jobs from the current index on
  have not been started; while the driver waits for job \<open>i\<close>, no other job is running and
  the later ones have not been started; after the driver has stopped, at most one job is
  still running.
\<close>

definition ordered :: "batch \<Rightarrow> bool" where
  "ordered s \<longleftrightarrow>
     (case driver s of
        Fetch i \<Rightarrow>
          (\<forall>j < length (jobs s). \<not> running (jobs s ! j)) \<and>
          (\<forall>j < length (jobs s). i \<le> j \<longrightarrow> jobs s ! j = NotStarted)
      | Join i \<Rightarrow>
          i < length (jobs s) \<and>
          (\<forall>j < length (jobs s). j \<noteq> i \<longrightarrow> \<not> running (jobs s ! j)) \<and>
          (\<forall>j < length (jobs s). i < j \<longrightarrow> jobs s ! j = NotStarted)
      | Stopped \<Rightarrow>
          (\<forall>i < length (jobs s). \<forall>j < length (jobs s).
             running (jobs s ! i) \<and> running (jobs s ! j) \<longrightarrow> i = j))"

text \<open>The places inside the \<open>with\<close> block, and the places where line 806 has run and
  neither line 854 nor line 889 has.\<close>

definition in_with :: "pc \<Rightarrow> bool" where
  "in_with p \<longleftrightarrow> p = Holding \<or> p = Registered \<or> p = Unregistered"

definition has_entry :: "pc \<Rightarrow> bool" where
  "has_entry p \<longleftrightarrow> p = Registered \<or> p = LeavingBound"

definition gate :: "nat \<Rightarrow> batch \<Rightarrow> bool" where
  "gate k s \<longleftrightarrow>
     finite (holders s) \<and> permits s + card (holders s) = k \<and>
     (\<forall>i. i \<in> holders s \<longleftrightarrow> i < length (jobs s) \<and> in_with (jobs s ! i)) \<and>
     ((\<exists>i < length (jobs s). jobs s ! i \<noteq> NotStarted \<and> jobs s ! i \<noteq> Waiting) \<longrightarrow> 1 \<le> k)"

definition entries :: "(nat \<Rightarrow> string) \<Rightarrow> batch \<Rightarrow> bool" where
  "entries key s \<longleftrightarrow>
     dom (active s) \<subseteq> key ` {i. i < length (jobs s) \<and> has_entry (jobs s ! i)}"

section \<open>Example inputs\<close>

text \<open>
  Five videos at 30 frames per second: a main video of 10 seconds and overlays of 5, 10, 30
  and 31 seconds.  Further videos: 15 and 45 frames at 25 frames per second, 8 and 24
  frames at 24 frames per second, and one for which OpenCV reports an infinite frame rate.
  Every other path cannot be read.
\<close>

definition video :: "pyfloat \<Rightarrow> pyfloat \<Rightarrow> capture" where
  "video fps frames =
     \<lparr>isOpened = Inr True, CAP_PROP_FPS = Inr fps, CAP_PROP_FRAME_COUNT = Inr frames,
      release = None\<rparr>"

definition cv_example :: cv2 where
  "cv_example p =
     (if p = ''main.mp4'' then Inr (video (Finite 30) (Finite 300))
      else if p = ''o5.mp4'' then Inr (video (Finite 30) (Finite 150))
      else if p = ''o10.mp4'' then Inr (video (Finite 30) (Finite 300))
      else if p = ''o30.mp4'' then Inr (video (Finite 30) (Finite 900))
      else if p = ''o31.mp4'' then Inr (video (Finite 30) (Finite 930))
      else if p = ''m15.mp4'' then Inr (video (Finite 25) (Finite 15))
      else if p = ''o45.mp4'' then Inr (video (Finite 25) (Finite 45))
      else if p = ''m8.mp4'' then Inr (video (Finite 24) (Finite 8))
      else if p = ''o24.mp4'' then Inr (video (Finite 24) (Finite 24))
      else if p = ''inf.mp4'' then Inr (video PosInf (Finite 300))
      else Inl OSError)"

definition app_example :: app where
  "app_example =
     \<lparr>main_video_paths = [''main.mp4''],
      overlay_video_paths = [''o5.mp4'', ''o10.mp4'', ''o30.mp4'', ''o31.mp4''],
      main_video_durations = [''main.mp4'' \<mapsto> Finite 10],
      overlay_video_durations =
        [''o5.mp4'' \<mapsto> Finite 5, ''o10.mp4'' \<mapsto> Finite 10, ''o30.mp4'' \<mapsto> Finite 30,
         ''o31.mp4'' \<mapsto> Finite 31],
      output_directory = None, processing = True, paused = False,
      current_processes = Map.empty, use_gpu = True\<rparr>"

text \<open>An encoder tool that lists both hardware encoders; only the AMD test encode works.\<close>

definition ffmpeg_example :: ffmpeg where
  "ffmpeg_example =
     \<lparr>run_encoders = Inr '' V....D h264_amf  V....D h264_nvenc '',
      run_test_encode = (\<lambda>enc. if enc = ''h264_amf'' then Inr 0 else Inr 1)\<rparr>"

text \<open>
  A job for the example main video and the overlay of 10 seconds.  The functions of
  \<open>os.path\<close> are simple ones for paths without directories; every directory exists.
\<close>

definition os_example :: os_env where
  "os_example =
     \<lparr>basename = (\<lambda>p. p), dirname = (\<lambda>p. ''videos''),
      join = (\<lambda>d f. d @ ''/'' @ f), normpath = (\<lambda>p. p),
      dir_exists = (\<lambda>d. True), makedirs_raises = (\<lambda>d. False),
      encode_raises = (\<lambda>s. False),
      get_video_dimensions = (\<lambda>p. (Some 1280, Some 720)),
      popen = Inr 7\<rparr>"

definition out_example :: path where
  "out_example = ''videos/output/output_main_C_o10.mp4''"

text \<open>An encoder that exits with code 0 at the second look and leaves an empty file.\<close>

definition run_empty :: encoder_run where
  "run_empty =
     \<lparr>ticks = [\<lparr>poll = None, processing_now = True, paused_now = False,
                 readline = ''frame=1''\<rparr>,
               \<lparr>poll = Some 0, processing_now = True, paused_now = False, readline = []\<rparr>],
      terminated = Inr (Some 1), stderr_read = [], close_raises = False,
      produced = Some 0\<rparr>"

text \<open>
  An encoder that is stopped at the second look, with the return code that \<open>wait\<close> then
  reports, and a file of 7 bytes written by then.
\<close>

definition run_stopped :: "int option \<Rightarrow> encoder_run" where
  "run_stopped returncode =
     \<lparr>ticks = [\<lparr>poll = None, processing_now = True, paused_now = False,
                 readline = ''frame=1''\<rparr>,
               \<lparr>poll = None, processing_now = False, paused_now = False, readline = []\<rparr>],
      terminated = Inr returncode, stderr_read = [], close_raises = False,
      produced = Some 7\<rparr>"

text \<open>A world without files, and one in which the output file exists and cannot be deleted.\<close>

definition world_empty :: world where
  "world_empty = \<lparr>files = Map.empty, undeletable = {}\<rparr>"

definition world_locked :: world where
  "world_locked = \<lparr>files = [out_example \<mapsto> 5], undeletable = {out_example}\<rparr>"


text \<open>Example runs: two main videos, three permits.\<close>

definition key_example :: "nat \<Rightarrow> string" where
  "key_example i = (if i = 0 then ''a.mp4_c.mp4'' else ''b.mp4_c.mp4'')"

definition batch_dispatched :: batch where
  "batch_dispatched =
     \<lparr>driver = Join 0, jobs = [Waiting, NotStarted], permits = 3, holders = {},
      active = Map.empty, flag = True\<rparr>"

definition batch_holding :: batch where
  "batch_holding =
     \<lparr>driver = Join 0, jobs = [Holding, NotStarted], permits = 2, holders = {0},
      active = Map.empty, flag = True\<rparr>"

definition batch_registered :: batch where
  "batch_registered =
     \<lparr>driver = Join 0, jobs = [Registered, NotStarted], permits = 2, holders = {0},
      active = [''a.mp4_c.mp4'' \<mapsto> 0], flag = True\<rparr>"

section \<open>Facts about \<open>sanitize_filename\<close>\<close>


lemma splitext_append: "splitext p = (b, e) \<Longrightarrow> b @ e = p"
proof -
  assume h: "splitext p = (b, e)"
  let ?P = "\<lambda>c. c \<noteq> CHR ''.'' \<and> \<not> is_sep c"
  show ?thesis
  proof (cases "dropWhile ?P (rev p)")
    case Nil
    with h show ?thesis by (simp add: splitext_def)
  next
    case (Cons c front)
    show ?thesis
    proof (cases "c = CHR ''.'' \<and> (\<exists>x \<in> set (takeWhile (\<lambda>c. \<not> is_sep c) front). x \<noteq> CHR ''.'')")
      case True
      with h Cons have b: "b = rev front" and e: "e = CHR ''.'' # rev (takeWhile ?P (rev p))"
        by (simp_all add: splitext_def Let_def)
      have "rev p = takeWhile ?P (rev p) @ dropWhile ?P (rev p)" by simp
      then have "rev p = takeWhile ?P (rev p) @ CHR ''.'' # front"
        using Cons True by simp
      then have "p = rev (takeWhile ?P (rev p) @ CHR ''.'' # front)"
        by (metis rev_rev_ident)
      then show ?thesis using b e by simp
    next
      case False
      with h Cons show ?thesis by (auto simp add: splitext_def Let_def)
    qed
  qed
qed

section \<open>Filename sanitization (claim C9)\<close>

lemma length_sanitized_long:
  "length ext \<le> 255 \<Longrightarrow> 255 < length (b @ ext) \<Longrightarrow>
   length (py_slice_to b (255 - int (length ext)) @ ext) = 255"
  by (auto simp: py_slice_to_def)




lemma py_slice_to_shorter:
  assumes "k < 0" and "xs \<noteq> []"
  shows "length (py_slice_to xs k) < length xs"
proof (cases "int (length xs) + k \<le> 0")
  case True
  then have "nat (int (length xs) + k) = 0" by simp
  then show ?thesis using assms by (simp add: py_slice_to_def)
next
  case False
  then have "0 \<le> int (length xs) + k" by simp
  then have "nat (int (length xs) + k) < length xs"
    using assms(1) by (simp add: nat_less_iff)
  then show ?thesis using assms(1) by (simp add: py_slice_to_def)
qed


lemma splitext_base_nonempty:
  assumes h: "splitext p = (b, e)" and ne: "e \<noteq> []"
  shows "b \<noteq> []"
proof -
  let ?P = "\<lambda>c. c \<noteq> CHR ''.'' \<and> \<not> is_sep c"
  show ?thesis
  proof (cases "dropWhile ?P (rev p)")
    case Nil
    with h have "e = []" by (simp add: splitext_def)
    then show ?thesis using ne by simp
  next
    case (Cons c front)
    show ?thesis
    proof (cases "c = CHR ''.'' \<and> (\<exists>x \<in> set (takeWhile (\<lambda>c. \<not> is_sep c) front). x \<noteq> CHR ''.'')")
      case True
      with h Cons have b: "b = rev front"
        by (simp_all add: splitext_def Let_def)
      obtain x where "x \<in> set (takeWhile (\<lambda>c. \<not> is_sep c) front)" using True by blast
      then have "x \<in> set front" using set_takeWhileD by metis
      then have "front \<noteq> []" by auto
      then show ?thesis using b by simp
    next
      case False
      with h Cons have "e = []" by (auto simp add: splitext_def Let_def)
      then show ?thesis using ne by simp
    qed
  qed
qed


text \<open>
  The bound of 255 characters is sharp: with a longer extension the second pass always
  changes the name again.
\<close>

lemma sanitize_filename_changes_long_ext:
  assumes "255 < length (snd (splitext (re_sub_illegal s)))"
  shows "sanitize_filename (sanitize_filename s) \<noteq> sanitize_filename s"
proof -
  obtain b e where be: "splitext (re_sub_illegal s) = (b, e)"
    by (cases "splitext (re_sub_illegal s)")
  have app: "b @ e = re_sub_illegal s" using be by (rule splitext_append)
  have el: "255 < length e" using assms be by simp
  then have long: "255 < length (re_sub_illegal s)" using app[symmetric] by simp
  let ?r = "py_slice_to b (255 - int (length e)) @ e"
  have r: "sanitize_filename s = ?r"
    using long by (simp add: sanitize_filename_def be)
  have rl: "255 < length ?r" using el by simp
  have "set ?r \<subseteq> set (re_sub_illegal s)"
    using app[symmetric] by (auto simp: py_slice_to_def dest: in_set_takeD)
  then have "\<forall>c \<in> set ?r. \<not> illegal_char c"
    by (auto simp: re_sub_illegal_def illegal_char_def split: if_splits)
  then have clean: "re_sub_illegal ?r = ?r"
    by (simp add: re_sub_illegal_def map_idI)
  obtain b' e' where be': "splitext ?r = (b', e')" by (cases "splitext ?r")
  have app': "b' @ e' = ?r" using be' by (rule splitext_append)
  let ?r' = "py_slice_to b' (255 - int (length e')) @ e'"
  have r': "sanitize_filename ?r = ?r'"
    unfolding sanitize_filename_def Let_def clean be' using rl by simp
  have len: "length ?r' \<noteq> length (b' @ e')"
  proof (cases "length e' \<le> 255")
    case True
    have "255 < length (b' @ e')" using rl app' by simp
    with True have "length ?r' = 255" by (rule length_sanitized_long)
    moreover have "255 < length (b' @ e')" using rl app' by simp
    ultimately show ?thesis by linarith
  next
    case False
    then have ne: "e' \<noteq> []" by auto
    have bn: "b' \<noteq> []" using be' ne by (rule splitext_base_nonempty)
    have neg: "255 - int (length e') < 0" using False by simp
    have "length (py_slice_to b' (255 - int (length e'))) < length b'"
      using neg bn by (rule py_slice_to_shorter)
    then show ?thesis by simp
  qed
  have "?r' \<noteq> b' @ e'"
  proof
    assume "?r' = b' @ e'"
    then have "length ?r' = length (b' @ e')" by (rule arg_cong)
    then show False using len by simp
  qed
  then have "sanitize_filename ?r \<noteq> ?r" unfolding r' app' .
  then show ?thesis unfolding r .
qed

section \<open>The duration probe (claim C7)\<close>

text \<open>Unfolding rules that evaluate the float operations on concrete numbers.\<close>

lemmas fl_eval = fl_def float_exponent_def floor_log2_lt1.simps floor_log2_ge1.simps
  round_half_even_def Let_def

lemmas probe_eval = get_video_duration_def get_video_duration_try_def read_duration_def
  py_int_def int_truediv_def cv_example_def video_def

lemma get_video_duration_total: "\<exists>d. get_video_duration cv p = Inr d"
  by (simp add: get_video_duration_def split: sum.splits)

text \<open>The probe on the example captures; 15 frames at 25 per second give the float 0.6.\<close>

lemma probe_examples:
  "get_video_duration cv_example ''main.mp4'' = Inr (Finite 10)"
  "get_video_duration cv_example ''o5.mp4'' = Inr (Finite 5)"
  "get_video_duration cv_example ''o10.mp4'' = Inr (Finite 10)"
  "get_video_duration cv_example ''o30.mp4'' = Inr (Finite 30)"
  "get_video_duration cv_example ''o31.mp4'' = Inr (Finite 31)"
  "get_video_duration cv_example ''m15.mp4'' = Inr (Finite (5404319552844595 / 9007199254740992))"
  "get_video_duration cv_example ''o45.mp4'' = Inr (Finite (8106479329266893 / 4503599627370496))"
  "get_video_duration cv_example ''m8.mp4'' = Inr (Finite (6004799503160661 / 18014398509481984))"
  "get_video_duration cv_example ''o24.mp4'' = Inr (Finite 1)"
  "get_video_duration cv_example ''inf.mp4'' = Inr (Finite 0)"
  "get_video_duration cv_example ''missing.mp4'' = Inr (Finite 0)"
  by (simp_all add: probe_eval fl_eval)

text \<open>
  Claim C7 as stated fails for a capture that reports an infinite frame rate: the capture is
  open, the frame rate is not at most 0, the frame count 300 is positive and nothing raises,
  yet the result is 0, because the quotient \<open>300 / inf\<close> is the float 0, which is not
  greater than 0 (lines 67 to 71 of the source).
\<close>

theorem get_video_duration_infinite_rate:
  "cv_example ''inf.mp4'' = Inr (video PosInf (Finite 300)) \<and>
   isOpened (video PosInf (Finite 300)) = Inr True \<and>
   CAP_PROP_FPS (video PosInf (Finite 300)) = Inr PosInf \<and>
   \<not> fle PosInf (Finite 0) \<and>
   CAP_PROP_FRAME_COUNT (video PosInf (Finite 300)) = Inr (Finite 300) \<and>
   py_int (Finite 300) = Inr 300 \<and> \<not> (300::int) \<le> 0 \<and>
   get_video_duration_try cv_example ''inf.mp4'' = Inr (Finite 0) \<and>
   get_video_duration cv_example ''inf.mp4'' = Inr (Finite 0) \<and>
   \<not> flt (Finite 0) (Finite 0)"
  by (simp add: probe_eval fl_eval)

text \<open>
  Claim C7, amended: \<open>get_video_duration\<close> never raises.  It returns 0 when the body
  raises, namely when opening the capture raises, when \<open>isOpened\<close> raises, when reading
  the frame rate or the frame count raises, when the frame count cannot be converted to an
  integer, when the division raises, and when \<open>release\<close> raises; it returns 0 when the
  capture is not open, and when the frame rate or the frame count (the integer that the code
  compares) is at most 0.  Otherwise it computes the float quotient of the frame count and
  the frame rate and returns it when it is greater than 0, and 0 when it is not (an infinite
  or undefined frame rate).
\<close>

theorem get_video_duration_cases:
  "(\<exists>d. get_video_duration cv p = Inr d) \<and>
   ((\<exists>e. get_video_duration_try cv p = Inl e) \<longrightarrow> get_video_duration cv p = Inr (Finite 0)) \<and>
   ((\<exists>e. cv p = Inl e) \<longrightarrow> get_video_duration cv p = Inr (Finite 0)) \<and>
   (\<forall>cap. cv p = Inr cap \<and> (\<exists>e. isOpened cap = Inl e) \<longrightarrow>
      get_video_duration cv p = Inr (Finite 0)) \<and>
   (\<forall>cap. cv p = Inr cap \<and> isOpened cap = Inr False \<longrightarrow>
      get_video_duration cv p = Inr (Finite 0)) \<and>
   (\<forall>cap. cv p = Inr cap \<and> isOpened cap = Inr True \<and>
      ((\<exists>e. CAP_PROP_FPS cap = Inl e) \<or> (\<exists>e. CAP_PROP_FRAME_COUNT cap = Inl e)) \<longrightarrow>
      get_video_duration cv p = Inr (Finite 0)) \<and>
   (\<forall>cap fps frames. cv p = Inr cap \<and> isOpened cap = Inr True \<and>
      CAP_PROP_FPS cap = Inr fps \<and> CAP_PROP_FRAME_COUNT cap = Inr frames \<and>
      (\<exists>e. py_int frames = Inl e) \<longrightarrow>
      get_video_duration cv p = Inr (Finite 0)) \<and>
   (\<forall>cap fps frames frame_count. cv p = Inr cap \<and> isOpened cap = Inr True \<and>
      CAP_PROP_FPS cap = Inr fps \<and> CAP_PROP_FRAME_COUNT cap = Inr frames \<and>
      py_int frames = Inr frame_count \<and> (fle fps (Finite 0) \<or> frame_count \<le> 0) \<longrightarrow>
      get_video_duration cv p = Inr (Finite 0)) \<and>
   (\<forall>cap fps frames frame_count. cv p = Inr cap \<and> isOpened cap = Inr True \<and>
      CAP_PROP_FPS cap = Inr fps \<and> CAP_PROP_FRAME_COUNT cap = Inr frames \<and>
      py_int frames = Inr frame_count \<and> \<not> fle fps (Finite 0) \<and> 0 < frame_count \<and>
      (\<exists>e. int_truediv frame_count fps = Inl e) \<longrightarrow>
      get_video_duration cv p = Inr (Finite 0)) \<and>
   (\<forall>cap fps frames frame_count duration. cv p = Inr cap \<and> isOpened cap = Inr True \<and>
      CAP_PROP_FPS cap = Inr fps \<and> CAP_PROP_FRAME_COUNT cap = Inr frames \<and>
      py_int frames = Inr frame_count \<and> \<not> fle fps (Finite 0) \<and> 0 < frame_count \<and>
      int_truediv frame_count fps = Inr duration \<longrightarrow>
      ((\<exists>e. release cap = Some e) \<longrightarrow> get_video_duration cv p = Inr (Finite 0)) \<and>
      (release cap = None \<and> flt (Finite 0) duration \<longrightarrow>
         get_video_duration cv p = Inr duration) \<and>
      (release cap = None \<and> \<not> flt (Finite 0) duration \<longrightarrow>
         get_video_duration cv p = Inr (Finite 0)))"
  by (auto simp add: get_video_duration_def get_video_duration_try_def read_duration_def
      split: sum.splits option.splits)

text \<open>A capture of 300 frames at 30 per second, and a path that cannot be opened.\<close>

theorem get_video_duration_cases_witness:
  "cv_example ''main.mp4'' = Inr (video (Finite 30) (Finite 300)) \<and>
   isOpened (video (Finite 30) (Finite 300)) = Inr True \<and>
   CAP_PROP_FPS (video (Finite 30) (Finite 300)) = Inr (Finite 30) \<and>
   CAP_PROP_FRAME_COUNT (video (Finite 30) (Finite 300)) = Inr (Finite 300) \<and>
   py_int (Finite 300) = Inr 300 \<and>
   \<not> fle (Finite 30) (Finite 0) \<and> (0::int) < 300 \<and>
   int_truediv 300 (Finite 30) = Inr (Finite 10) \<and>
   release (video (Finite 30) (Finite 300)) = None \<and> flt (Finite 0) (Finite 10) \<and>
   get_video_duration cv_example ''main.mp4'' = Inr (Finite 10) \<and>
   cv_example ''missing.mp4'' = Inl OSError \<and>
   get_video_duration cv_example ''missing.mp4'' = Inr (Finite 0)"
proof -
  have d: "int_truediv 300 (Finite 30) = Inr (Finite 10)"
    by (simp add: int_truediv_def fl_eval)
  show ?thesis
    using get_video_duration_cases [of cv_example "''main.mp4''"]
      get_video_duration_cases [of cv_example "''missing.mp4''"] d probe_examples
    by (simp add: cv_example_def video_def py_int_def)
qed

section \<open>The pairing window (claim C1)\<close>

lemma flt_zero_not_fle: "flt (Finite 0) m \<Longrightarrow> \<not> fle m (Finite 0)"
  by (cases m) simp_all

lemma fle_above_positive: "flt (Finite 0) m \<Longrightarrow> fle m d \<Longrightarrow> \<not> fle d (Finite 0)"
  by (cases m; cases d) simp_all

lemma suitable_loop_filter:
  "suitable_loop cv m ps acc =
     Inr (acc @ filter (\<lambda>p. \<not> fle (probed_duration cv p) (Finite 0) \<and>
                            fle m (probed_duration cv p) \<and>
                            fle (probed_duration cv p) (fmul m (Finite 3))) ps)"
proof (induction ps arbitrary: acc)
  case Nil
  then show ?case by simp
next
  case (Cons p ps)
  obtain d where d: "get_video_duration cv p = Inr d"
    using get_video_duration_total by blast
  then have pd: "probed_duration cv p = d" by (simp add: probed_duration_def)
  show ?case using Cons d pd by (auto simp: Let_def)
qed

text \<open>
  Claim C1, amended: when the probed duration \<open>m\<close> of the main video is greater than 0,
  \<open>get_suitable_overlay_videos\<close> returns exactly the overlay paths whose probed duration
  \<open>d\<close> satisfies \<open>m \<le> d\<close> and \<open>d \<le> fl (m * 3)\<close>, in the order of the overlay list,
  where \<open>m\<close> and \<open>d\<close> are the floats that the probe returns and \<open>fl (m * 3)\<close> is the
  float product that the code computes, rounded to the nearest float.
\<close>

theorem get_suitable_overlay_videos_window:
  assumes "get_video_duration cv main = Inr m" and "flt (Finite 0) m"
  shows "get_suitable_overlay_videos cv self main =
           Inr (filter (\<lambda>p. fle m (probed_duration cv p) \<and>
                             fle (probed_duration cv p) (fmul m (Finite 3)))
                  (overlay_video_paths self))"
proof -
  have "(\<lambda>p. \<not> fle (probed_duration cv p) (Finite 0) \<and> fle m (probed_duration cv p) \<and>
              fle (probed_duration cv p) (fmul m (Finite 3)))
        = (\<lambda>p. fle m (probed_duration cv p) \<and> fle (probed_duration cv p) (fmul m (Finite 3)))"
    using fle_above_positive[OF assms(2)] by auto
  then show ?thesis
    using assms flt_zero_not_fle[OF assms(2)]
    by (simp add: get_suitable_overlay_videos_def get_suitable_overlay_videos_try_def
        suitable_loop_filter)
qed

lemma probed_examples:
  "probed_duration cv_example ''o5.mp4'' = Finite 5"
  "probed_duration cv_example ''o10.mp4'' = Finite 10"
  "probed_duration cv_example ''o30.mp4'' = Finite 30"
  "probed_duration cv_example ''o31.mp4'' = Finite 31"
  "probed_duration cv_example ''o45.mp4'' = Finite (8106479329266893 / 4503599627370496)"
  "probed_duration cv_example ''o24.mp4'' = Finite 1"
  by (simp_all add: probed_duration_def probe_examples)

lemma product_examples:
  "fmul (Finite 10) (Finite 3) = Finite 30"
  "fmul (Finite (5404319552844595 / 9007199254740992)) (Finite 3) =
     Finite (8106479329266892 / 4503599627370496)"
  "fmul (Finite (6004799503160661 / 18014398509481984)) (Finite 3) = Finite 1"
  by (simp_all add: fl_eval)

text \<open>For a main video of 10 seconds and overlays of 5, 10, 30 and 31 seconds.\<close>

theorem get_suitable_overlay_videos_window_witness:
  "get_video_duration cv_example ''main.mp4'' = Inr (Finite 10) \<and> flt (Finite 0) (Finite 10) \<and>
   map (probed_duration cv_example) (overlay_video_paths app_example) =
     [Finite 5, Finite 10, Finite 30, Finite 31] \<and>
   get_suitable_overlay_videos cv_example app_example ''main.mp4'' =
     Inr [''o10.mp4'', ''o30.mp4'']"
proof -
  have h: "get_video_duration cv_example ''main.mp4'' = Inr (Finite 10)"
    by (rule probe_examples)
  have p: "flt (Finite 0) (Finite 10)" by simp
  show ?thesis
    using h get_suitable_overlay_videos_window [OF h p, of app_example]
    by (simp add: probed_examples app_example_def fl_eval)
qed

text \<open>
  Claim C1 as stated, read over the exact durations, fails in both directions.  A main video
  of 15 frames and an overlay of 45 frames, both at 25 frames per second, last 0.6 and 1.8
  seconds, so that the overlay is exactly three times as long as the main video; the floats
  are \<open>0.6\<close> and \<open>1.8\<close>, the float product \<open>0.6 * 3.0\<close> is the float just below
  \<open>1.8\<close>, and the overlay is not selected.  A main video of 8 frames and an overlay of 24
  frames at 24 frames per second: the probed durations are the float nearest to one third,
  which is smaller than one third, and 1; three times the probed main duration is smaller
  than 1, but the float product is 1, and the overlay is selected.
\<close>

theorem get_suitable_overlay_videos_window_rounded:
  "get_video_duration cv_example ''m15.mp4'' =
     Inr (Finite (5404319552844595 / 9007199254740992)) \<and>
   get_video_duration cv_example ''o45.mp4'' =
     Inr (Finite (8106479329266893 / 4503599627370496)) \<and>
   (45 / 25 :: real) = 3 * (15 / 25) \<and>
   get_suitable_overlay_videos cv_example
     (app_example\<lparr>overlay_video_paths := [''o45.mp4'']\<rparr>) ''m15.mp4'' = Inr [] \<and>
   get_video_duration cv_example ''m8.mp4'' =
     Inr (Finite (6004799503160661 / 18014398509481984)) \<and>
   get_video_duration cv_example ''o24.mp4'' = Inr (Finite 1) \<and>
   \<not> (1 :: real) \<le> 3 * (6004799503160661 / 18014398509481984) \<and>
   get_suitable_overlay_videos cv_example
     (app_example\<lparr>overlay_video_paths := [''o24.mp4'']\<rparr>) ''m8.mp4'' = Inr [''o24.mp4'']"
  by (simp add: get_suitable_overlay_videos_def get_suitable_overlay_videos_try_def
      probe_examples fl_eval)

section \<open>The choice of an overlay (claim C8)\<close>

lemma get_suitable_total: "\<exists>xs. get_suitable_overlay_videos cv self main = Inr xs"
  by (simp add: get_suitable_overlay_videos_def split: sum.splits)

lemma select_draw:
  assumes "get_suitable_overlay_videos cv self main = Inr suit" and "i < length suit"
  shows "select_random_overlay_video i cv self main = Inr (Some (suit ! i))"
  using assms by (auto simp: select_random_overlay_video_def random_choice_def randbelow_def)

text \<open>
  Claim C8: \<open>select_random_overlay_video\<close> never raises; it returns \<open>None\<close> exactly when
  the suitable list is empty; otherwise it returns a member of the suitable list.  The
  choice is uniform: when the generator draws the number \<open>i\<close> below the length of the
  suitable list, the \<open>i\<close>-th suitable overlay is returned, so that each overlay is returned
  for as many of the equally likely draws as it has places in the list (one, the list
  having no duplicates).
\<close>

theorem select_random_overlay_video_choice:
  "(\<exists>r. select_random_overlay_video rnd cv self main = Inr r) \<and>
   (select_random_overlay_video rnd cv self main = Inr None \<longleftrightarrow>
      get_suitable_overlay_videos cv self main = Inr []) \<and>
   (\<forall>suit. get_suitable_overlay_videos cv self main = Inr suit \<and> suit \<noteq> [] \<longrightarrow>
      (\<exists>p \<in> set suit. select_random_overlay_video rnd cv self main = Inr (Some p)) \<and>
      (\<forall>i < length suit. select_random_overlay_video i cv self main = Inr (Some (suit ! i))) \<and>
      (\<forall>p. card {i. i < length suit \<and>
                   select_random_overlay_video i cv self main = Inr (Some p)}
            = count_list suit p))"
proof -
  obtain suit where s: "get_suitable_overlay_videos cv self main = Inr suit"
    using get_suitable_total by blast
  have a: "\<exists>r. select_random_overlay_video rnd cv self main = Inr r"
    using s by (simp add: select_random_overlay_video_def random_choice_def)
  have b: "select_random_overlay_video rnd cv self main = Inr None \<longleftrightarrow>
      get_suitable_overlay_videos cv self main = Inr []"
    using s by (simp add: select_random_overlay_video_def random_choice_def)
  have c: "\<exists>p \<in> set suit. select_random_overlay_video rnd cv self main = Inr (Some p)"
    if "suit \<noteq> []"
    using s that
    by (simp add: select_random_overlay_video_def random_choice_def randbelow_def)
  have d: "\<forall>i < length suit. select_random_overlay_video i cv self main = Inr (Some (suit ! i))"
    using s select_draw by blast
  have e: "card {i. i < length suit \<and>
                    select_random_overlay_video i cv self main = Inr (Some p)}
            = count_list suit p" for p
  proof -
    have "{i. i < length suit \<and> select_random_overlay_video i cv self main = Inr (Some p)}
          = {i. i < length suit \<and> p = suit ! i}"
      using d by auto
    then show ?thesis
      by (simp add: count_list_eq_length_filter length_filter_conv_card)
  qed
  show ?thesis using a b c d e s by auto
qed

lemma suitable_example:
  "get_suitable_overlay_videos cv_example app_example ''main.mp4'' = Inr [''o10.mp4'', ''o30.mp4'']"
  by (simp add: get_suitable_overlay_videos_def get_suitable_overlay_videos_try_def
      probe_examples app_example_def fl_eval)

text \<open>With the overlays of 10 and 30 seconds suitable, the draw 1 selects the second.\<close>

theorem select_random_overlay_video_choice_witness:
  "get_suitable_overlay_videos cv_example app_example ''main.mp4'' =
     Inr [''o10.mp4'', ''o30.mp4''] \<and>
   [''o10.mp4'', ''o30.mp4''] \<noteq> [] \<and> (1::nat) < length [''o10.mp4'', ''o30.mp4''] \<and>
   select_random_overlay_video 1 cv_example app_example ''main.mp4'' = Inr (Some ''o30.mp4'') \<and>
   card {i. i < length [''o10.mp4'', ''o30.mp4''] \<and>
            select_random_overlay_video i cv_example app_example ''main.mp4'' =
              Inr (Some ''o30.mp4'')} = 1"
  using suitable_example
    select_random_overlay_video_choice [of 1 cv_example app_example "''main.mp4''"]
  by simp

section \<open>Hardware encoder negotiation (claim C4)\<close>

lemma check_gpu_support_total: "\<exists>g. check_gpu_support ff = Inr g"
  by (simp add: check_gpu_support_def split: sum.splits)

text \<open>
  Claim C4: \<open>check_gpu_support\<close> never raises.  It answers NVIDIA exactly when
  \<open>h264_nvenc\<close> is listed and its test encode returns 0; it answers AMD exactly when
  that is not so (NVIDIA is tried first, and its test encode has not raised), \<open>h264_amf\<close>
  is listed and its test encode returns 0.  When neither encoder passes both checks, and
  when a call raises, the answer is \<open>None\<close>, for which the software encoder is used.
\<close>

theorem check_gpu_support_negotiation:
  "(\<exists>g. check_gpu_support ff = Inr g) \<and>
   (check_gpu_support ff = Inr (Some NVIDIA) \<longleftrightarrow>
      (\<exists>encoders. run_encoders ff = Inr encoders \<and> sublist ''h264_nvenc'' encoders \<and>
         run_test_encode ff ''h264_nvenc'' = Inr 0)) \<and>
   (check_gpu_support ff = Inr (Some AMD) \<longleftrightarrow>
      (\<exists>encoders. run_encoders ff = Inr encoders \<and>
         (\<not> sublist ''h264_nvenc'' encoders \<or>
          (\<exists>rc. run_test_encode ff ''h264_nvenc'' = Inr rc \<and> rc \<noteq> 0)) \<and>
         sublist ''h264_amf'' encoders \<and> run_test_encode ff ''h264_amf'' = Inr 0)) \<and>
   ((\<forall>encoders. run_encoders ff = Inr encoders \<longrightarrow>
       \<not> (sublist ''h264_nvenc'' encoders \<and> run_test_encode ff ''h264_nvenc'' = Inr 0) \<and>
       \<not> (sublist ''h264_amf'' encoders \<and> run_test_encode ff ''h264_amf'' = Inr 0)) \<longrightarrow>
      check_gpu_support ff = Inr None) \<and>
   ((\<exists>e. check_gpu_support_try ff = Inl e) \<longrightarrow> check_gpu_support ff = Inr None) \<and>
   (check_gpu_support ff = Inr None \<longrightarrow>
      negotiate_gpu self ff = Inr None \<and>
      video_encoder (encoder_settings_of None) = ''libx264'' \<and>
      hwaccel (encoder_settings_of None) = ''none'')"
  by (auto simp add: check_gpu_support_def check_gpu_support_try_def check_nvenc_def
      check_amf_def negotiate_gpu_def encoder_settings_of_def
      split: sum.splits if_splits)

lemma ex_listed: "sublist ''h264_nvenc'' '' V....D h264_amf  V....D h264_nvenc ''"
   "sublist ''h264_amf'' '' V....D h264_amf  V....D h264_nvenc ''"
  by code_simp+

theorem check_gpu_support_negotiation_witness:
  "run_encoders ffmpeg_example = Inr '' V....D h264_amf  V....D h264_nvenc '' \<and>
   sublist ''h264_nvenc'' '' V....D h264_amf  V....D h264_nvenc '' \<and>
   run_test_encode ffmpeg_example ''h264_nvenc'' = Inr 1 \<and> (1::int) \<noteq> 0 \<and>
   sublist ''h264_amf'' '' V....D h264_amf  V....D h264_nvenc '' \<and>
   run_test_encode ffmpeg_example ''h264_amf'' = Inr 0 \<and>
   check_gpu_support ffmpeg_example = Inr (Some AMD) \<and>
   check_gpu_support (ffmpeg_example\<lparr>run_encoders := Inl OSError\<rparr>) = Inr None \<and>
   check_gpu_support_try (ffmpeg_example\<lparr>run_encoders := Inl OSError\<rparr>) = Inl OSError"
  using ex_listed check_gpu_support_negotiation [of ffmpeg_example]
    check_gpu_support_negotiation [of "ffmpeg_example\<lparr>run_encoders := Inl OSError\<rparr>"]
  by (simp add: ffmpeg_example_def check_gpu_support_try_def)

section \<open>Removing selected videos (claim C10)\<close>

lemma nths_cong_below:
  "(\<And>i. i < length xs \<Longrightarrow> (i \<in> A) = (i \<in> B)) \<Longrightarrow> nths xs A = nths xs B"
proof -
  assume h: "\<And>i. i < length xs \<Longrightarrow> (i \<in> A) = (i \<in> B)"
  have "filter (\<lambda>p. snd p \<in> A) (zip xs [0..<length xs]) = filter (\<lambda>p. snd p \<in> B) (zip xs [0..<length xs])"
    by (rule filter_cong) (auto simp: set_zip h)
  then show ?thesis by (simp add: nths_def)
qed

lemma nths_pop:
  assumes "d < length xs" and "\<forall>j \<in> D. j < d"
  shows "nths (take d xs @ drop (Suc d) xs) (- D) = nths xs (- insert d D)"
proof -
  have xs: "xs = take d xs @ (xs ! d) # drop (Suc d) xs"
    using assms(1) by (simp add: id_take_nth_drop)
  have m: "min (length xs) d = d" using assms(1) by simp
  have a: "nths (take d xs) (- D) = nths (take d xs) (- insert d D)"
    by (rule nths_cong_below) (use m in auto)
  have b: "nths (drop (Suc d) xs) {j. j + d \<in> - D} = drop (Suc d) xs"
    by (rule nths_all) (use assms(2) in auto)
  have c: "nths (drop (Suc d) xs) {j. j + Suc d \<in> - insert d D} = drop (Suc d) xs"
    by (rule nths_all) (use assms(2) in auto)
  have "nths xs (- insert d D) = nths (take d xs @ (xs ! d) # drop (Suc d) xs) (- insert d D)"
    using xs by simp
  also have "\<dots> = nths (take d xs) (- insert d D) @ nths ((xs ! d) # drop (Suc d) xs) {j. j + d \<in> - insert d D}"
    by (simp add: nths_append m)
  also have "nths ((xs ! d) # drop (Suc d) xs) {j. j + d \<in> - insert d D} = nths (drop (Suc d) xs) {j. j + Suc d \<in> - insert d D}"
    by (simp add: nths_Cons)
  finally have r: "nths xs (- insert d D) = nths (take d xs) (- insert d D) @ drop (Suc d) xs"
    using c by simp
  have "nths (take d xs @ drop (Suc d) xs) (- D) = nths (take d xs) (- D) @ nths (drop (Suc d) xs) {j. j + d \<in> - D}"
    by (simp add: nths_append m)
  then show ?thesis using a b r by simp
qed

lemma remove_main_loop_desc:
  assumes "sorted_wrt (>) ds" and "\<forall>i \<in> set ds. i < length (main_video_paths self)"
  shows "remove_main_loop ds self =
           (None, self\<lparr>main_video_paths := nths (main_video_paths self) (- set ds)\<rparr>)"
  using assms
proof (induction ds arbitrary: self)
  case Nil
  then show ?case by (simp add: nths_all)
next
  case (Cons d ds)
  let ?xs = "main_video_paths self"
  let ?self1 = "self\<lparr>main_video_paths := take d ?xs @ drop (Suc d) ?xs\<rparr>"
  have d: "d < length ?xs" using Cons.prems by simp
  have lt: "\<forall>j \<in> set ds. j < d" using Cons.prems by auto
  have len: "length (take d ?xs @ drop (Suc d) ?xs) = length ?xs - 1" using d by simp
  have bnd: "\<forall>i \<in> set ds. i < length (main_video_paths ?self1)"
    using lt d len by auto
  have srt: "sorted_wrt (>) ds" using Cons.prems by simp
  have "remove_main_loop ds ?self1 =
     (None, ?self1\<lparr>main_video_paths := nths (main_video_paths ?self1) (- set ds)\<rparr>)"
    using srt bnd by (rule Cons.IH)
  then show ?case using d nths_pop[OF d lt] by simp
qed

lemma valid_selection_rev:
  "valid_selection sel xs \<Longrightarrow> sorted_wrt (>) (rev sel) \<and> (\<forall>i \<in> set (rev sel). i < length xs)"
proof -
  assume v: "valid_selection sel xs"
  then have "sorted_wrt (<) sel" by (simp add: valid_selection_def strict_sorted_iff)
  then have "sorted_wrt (>) (rev sel)" by (simp add: sorted_wrt_rev)
  then show ?thesis using v by (simp add: valid_selection_def)
qed


lemma restrict_map_delete:
  "(m(k := None)) |` (- A) = m |` (- insert k A)"
  by (auto simp: restrict_map_def fun_eq_iff)

lemma remove_overlay_loop_desc:
  assumes "sorted_wrt (>) ds" and "\<forall>i \<in> set ds. i < length (overlay_video_paths self)"
  shows "remove_overlay_loop ds self =
           (None, self\<lparr>overlay_video_durations :=
                          overlay_video_durations self |` (- (\<lambda>i. overlay_video_paths self ! i) ` set ds),
                        overlay_video_paths := nths (overlay_video_paths self) (- set ds)\<rparr>)"
  using assms
proof (induction ds arbitrary: self)
  case Nil
  then show ?case by (simp add: nths_all)
next
  case (Cons d ds)
  let ?xs = "overlay_video_paths self"
  let ?ys = "take d ?xs @ drop (Suc d) ?xs"
  let ?m = "(overlay_video_durations self)(?xs ! d := None)"
  let ?self1 = "self\<lparr>overlay_video_durations := ?m, overlay_video_paths := ?ys\<rparr>"
  have d: "d < length ?xs" using Cons.prems by simp
  have lt: "\<forall>j \<in> set ds. j < d" using Cons.prems by auto
  have len: "length ?ys = length ?xs - 1" using d by simp
  have bnd: "\<forall>i \<in> set ds. i < length (overlay_video_paths ?self1)"
    using lt d len by auto
  have srt: "sorted_wrt (>) ds" using Cons.prems by simp
  have ih: "remove_overlay_loop ds ?self1 =
     (None, ?self1\<lparr>overlay_video_durations :=
                          overlay_video_durations ?self1 |` (- (\<lambda>i. overlay_video_paths ?self1 ! i) ` set ds),
                        overlay_video_paths := nths (overlay_video_paths ?self1) (- set ds)\<rparr>)"
    using srt bnd by (rule Cons.IH)
  have img: "(\<lambda>i. ?ys ! i) ` set ds = (\<lambda>i. ?xs ! i) ` set ds"
    using lt d by (intro image_cong refl) (simp add: nth_append)
  have stepd: "remove_overlay_loop (d # ds) self = remove_overlay_loop ds ?self1"
  proof (cases "?xs ! d \<in> dom (overlay_video_durations self)")
    case True
    then show ?thesis using d by (simp add: Let_def)
  next
    case False
    then have "?m = overlay_video_durations self" by (auto simp: fun_eq_iff)
    then show ?thesis using d False by (simp add: Let_def)
  qed
  show ?case
    unfolding stepd ih using img nths_pop[OF d lt] restrict_map_delete[of "overlay_video_durations self" "?xs ! d" "(\<lambda>i. ?xs ! i) ` set ds"]
    by simp
qed


lemma removed_not_in_nths:
  assumes "distinct xs" and "i \<in> I" and "i < length xs"
  shows "xs ! i \<notin> set (nths xs (- I))"
  using assms by (auto simp: set_nths nth_eq_iff_index_eq)

lemma stale_example:
  "valid_selection [0] (main_video_paths app_example) \<and>
   \<not> dom (main_video_durations (snd (remove_selected_video [0] app_example)))
       \<subseteq> set (main_video_paths (snd (remove_selected_video [0] app_example)))"
  by (simp add: valid_selection_def app_example_def remove_selected_video_def)

text \<open>
  Claim C10: for a selection as the list box gives it, \<open>remove_selected_overlay\<close> takes
  the selected rows out of \<open>overlay_video_paths\<close> and the paths of these rows out of
  \<open>overlay_video_durations\<close>, while \<open>remove_selected_video\<close> takes the selected rows
  out of \<open>main_video_paths\<close> and leaves \<open>main_video_durations\<close> as it is; so after a
  removal of main videos the duration index can hold keys that are no longer in the list.
\<close>

theorem remove_selected_frame:
  "(valid_selection selo (overlay_video_paths self) \<longrightarrow>
      remove_selected_overlay selo self =
        (None, self\<lparr>overlay_video_durations :=
                       overlay_video_durations self |`
                         (- (\<lambda>i. overlay_video_paths self ! i) ` set selo),
                     overlay_video_paths := nths (overlay_video_paths self) (- set selo)\<rparr>) \<and>
      (\<forall>i \<in> set selo.
         overlay_video_paths self ! i
           \<notin> dom (overlay_video_durations (snd (remove_selected_overlay selo self))) \<and>
         (distinct (overlay_video_paths self) \<longrightarrow>
            overlay_video_paths self ! i
              \<notin> set (overlay_video_paths (snd (remove_selected_overlay selo self)))))) \<and>
   (valid_selection selm (main_video_paths self) \<longrightarrow>
      remove_selected_video selm self =
        (None, self\<lparr>main_video_paths := nths (main_video_paths self) (- set selm)\<rparr>) \<and>
      main_video_durations (snd (remove_selected_video selm self)) = main_video_durations self \<and>
      (\<forall>i \<in> set selm.
         distinct (main_video_paths self) \<longrightarrow>
           main_video_paths self ! i
             \<notin> set (main_video_paths (snd (remove_selected_video selm self))))) \<and>
   (\<exists>self0 sel0. valid_selection sel0 (main_video_paths self0) \<and>
      \<not> dom (main_video_durations (snd (remove_selected_video sel0 self0)))
          \<subseteq> set (main_video_paths (snd (remove_selected_video sel0 self0))))"
proof (intro conjI impI)
  assume v: "valid_selection selo (overlay_video_paths self)"
  have r: "sorted_wrt (>) (rev selo)" "\<forall>i \<in> set (rev selo). i < length (overlay_video_paths self)"
    using valid_selection_rev[OF v] by simp_all
  show eq: "remove_selected_overlay selo self =
        (None, self\<lparr>overlay_video_durations :=
                       overlay_video_durations self |`
                         (- (\<lambda>i. overlay_video_paths self ! i) ` set selo),
                     overlay_video_paths := nths (overlay_video_paths self) (- set selo)\<rparr>)"
  proof (cases "selo = []")
    case True
    then show ?thesis by (simp add: remove_selected_overlay_def nths_all restrict_map_def)
  next
    case False
    then show ?thesis
      using remove_overlay_loop_desc[OF r] by (simp add: remove_selected_overlay_def)
  qed
  show "\<forall>i \<in> set selo.
         overlay_video_paths self ! i
           \<notin> dom (overlay_video_durations (snd (remove_selected_overlay selo self))) \<and>
         (distinct (overlay_video_paths self) \<longrightarrow>
            overlay_video_paths self ! i
              \<notin> set (overlay_video_paths (snd (remove_selected_overlay selo self))))"
  proof
    fix i assume i: "i \<in> set selo"
    then have il: "i < length (overlay_video_paths self)" using v by (simp add: valid_selection_def)
    have a: "overlay_video_paths self ! i
           \<notin> dom (overlay_video_durations (snd (remove_selected_overlay selo self)))"
      unfolding eq using i by (auto simp: restrict_map_def)
    have b: "overlay_video_paths self ! i
              \<notin> set (overlay_video_paths (snd (remove_selected_overlay selo self)))"
      if "distinct (overlay_video_paths self)"
      unfolding eq using removed_not_in_nths[OF that i il] by simp
    show "overlay_video_paths self ! i
           \<notin> dom (overlay_video_durations (snd (remove_selected_overlay selo self))) \<and>
         (distinct (overlay_video_paths self) \<longrightarrow>
            overlay_video_paths self ! i
              \<notin> set (overlay_video_paths (snd (remove_selected_overlay selo self))))"
      using a b by simp
  qed
next
  assume v: "valid_selection selm (main_video_paths self)"
  have r: "sorted_wrt (>) (rev selm)" "\<forall>i \<in> set (rev selm). i < length (main_video_paths self)"
    using valid_selection_rev[OF v] by simp_all
  show eq: "remove_selected_video selm self =
        (None, self\<lparr>main_video_paths := nths (main_video_paths self) (- set selm)\<rparr>)"
    using remove_main_loop_desc[OF r] by (simp add: remove_selected_video_def)
  show "main_video_durations (snd (remove_selected_video selm self)) = main_video_durations self"
    unfolding eq by simp
  show "\<forall>i \<in> set selm.
         distinct (main_video_paths self) \<longrightarrow>
           main_video_paths self ! i
             \<notin> set (main_video_paths (snd (remove_selected_video selm self)))"
  proof (intro ballI impI)
    fix i assume i: "i \<in> set selm" and dist: "distinct (main_video_paths self)"
    then have il: "i < length (main_video_paths self)" using v by (simp add: valid_selection_def)
    show "main_video_paths self ! i
             \<notin> set (main_video_paths (snd (remove_selected_video selm self)))"
      unfolding eq using removed_not_in_nths[OF dist i il] by simp
  qed
next
  show "\<exists>self0 sel0. valid_selection sel0 (main_video_paths self0) \<and>
      \<not> dom (main_video_durations (snd (remove_selected_video sel0 self0)))
          \<subseteq> set (main_video_paths (snd (remove_selected_video sel0 self0)))"
    using stale_example by blast
qed

text \<open>Removing the overlays of 10 and 30 seconds, and the only main video.\<close>

theorem remove_selected_frame_witness:
  "valid_selection [1, 2] (overlay_video_paths app_example) \<and>
   valid_selection [0] (main_video_paths app_example) \<and>
   distinct (overlay_video_paths app_example) \<and> distinct (main_video_paths app_example) \<and>
   overlay_video_paths (snd (remove_selected_overlay [1, 2] app_example)) =
     [''o5.mp4'', ''o31.mp4''] \<and>
   dom (overlay_video_durations (snd (remove_selected_overlay [1, 2] app_example))) =
     {''o5.mp4'', ''o31.mp4''} \<and>
   main_video_paths (snd (remove_selected_video [0] app_example)) = [] \<and>
   main_video_durations (snd (remove_selected_video [0] app_example)) ''main.mp4'' = Some (Finite 10)"
proof -
  have vo: "valid_selection [1, 2] (overlay_video_paths app_example)"
    by (simp add: valid_selection_def app_example_def)
  have vm: "valid_selection [0] (main_video_paths app_example)"
    by (simp add: valid_selection_def app_example_def)
  have dm: "dom (overlay_video_durations app_example |`
              (- (\<lambda>i. overlay_video_paths app_example ! i) ` set [1, 2]))
            = {''o5.mp4'', ''o31.mp4''}"
    by (auto simp: app_example_def restrict_map_def dom_def split: if_splits)
  have no: "nths (overlay_video_paths app_example) (- set [1, 2]) = [''o5.mp4'', ''o31.mp4'']"
    by (simp add: app_example_def nths_Cons)
  have nm: "nths (main_video_paths app_example) (- set [0]) = []"
    by (simp add: app_example_def nths_Cons)
  have md: "main_video_durations app_example ''main.mp4'' = Some (Finite 10)"
    by (simp add: app_example_def)
  have ds: "distinct (overlay_video_paths app_example)" "distinct (main_video_paths app_example)"
    by (simp_all add: app_example_def)
  show ?thesis
    using remove_selected_frame [of "[1, 2]" app_example "[0]"] vo vm dm no nm md ds
    by simp
qed

section \<open>One job: output check and clean-up (claims C5 and C6)\<close>



lemma supervise_zero:
  assumes "monitor (ticks run) (terminated run) [] = Some (Inr (Some 0), err)"
    and "\<not> close_raises run"
  shows "supervise run out key self1 w =
           Some (verify_output out key
                  (self1\<lparr>current_processes := (current_processes self1)(key := None)\<rparr>)
                  (w\<lparr>files := (files w)(out := produced run)\<rparr>))"
proof -
  have "(if key \<in> dom (current_processes self1)
         then self1\<lparr>current_processes := (current_processes self1)(key := None)\<rparr> else self1)
        = self1\<lparr>current_processes := (current_processes self1)(key := None)\<rparr>"
    by (auto simp: fun_upd_idem_iff domIff)
  then show ?thesis
    using assms by (simp add: supervise_def check_returncode_def Let_def)
qed

text \<open>
  Claim C5, amended: take a job that has spawned its encoder, whose process has exited with
  code 0 and whose handles were closed without an exception.  If the output file is then
  absent or empty, the job ends with an exception (\<open>OutputMissing\<close> for an absent file,
  \<open>OutputEmpty\<close> for an empty one), and afterwards there is no file at the output path,
  unless the empty file cannot be deleted: the failed deletion is swallowed and the file
  stays.
\<close>

theorem output_integrity:
  assumes "prepare env self w main overlay = Inr (out, key, self1)"
    and "monitor (ticks run) (terminated run) [] = Some (Inr (Some 0), err)"
    and "\<not> close_raises run"
    and "produced run = None \<or> produced run = Some 0"
  shows "\<exists>e self' w'.
           process_video env run self w main overlay = Some (Some e, self', w') \<and>
           (produced run = None \<longrightarrow> e = OutputMissing) \<and>
           (produced run = Some 0 \<longrightarrow> e = OutputEmpty) \<and>
           (files w' out = None \<or>
              produced run = Some 0 \<and> out \<in> undeletable w \<and> files w' out = Some 0) \<and>
           (out \<notin> undeletable w \<longrightarrow> files w' out = None)"
proof -
  let ?s = "self1\<lparr>current_processes := (current_processes self1)(key := None)\<rparr>"
  let ?w = "w\<lparr>files := (files w)(out := produced run)\<rparr>"
  have tr: "process_video_try env run self w main overlay = Some (verify_output out key ?s ?w)"
    using assms(1) supervise_zero[OF assms(2,3)] by (simp add: process_video_try_def)
  show ?thesis
  proof (cases "produced run")
    case None
    then show ?thesis
      by (simp add: process_video_def tr verify_output_def except_clause_def
          finally_clause_def Let_def)
  next
    case (Some n)
    then have n: "n = 0" using assms(4) by simp
    show ?thesis
    proof (cases "out \<in> undeletable w")
      case True
      then show ?thesis
        using Some n
        by (simp add: process_video_def tr verify_output_def os_path_getsize_def os_remove_def
            except_clause_def finally_clause_def Let_def)
    next
      case False
      then show ?thesis
        using Some n
        by (simp add: process_video_def tr verify_output_def os_path_getsize_def os_remove_def
            except_clause_def finally_clause_def Let_def)
    qed
  qed
qed








lemma sanitize_example:
  "sanitize_filename ''output_main_C_o10.mp4'' = ''output_main_C_o10.mp4''"
  by code_simp

lemma splitext_examples:
  "splitext ''main.mp4'' = (''main'', ''.mp4'')" "splitext ''o10.mp4'' = (''o10'', ''.mp4'')"
  by code_simp+

lemma prepare_example:
  "prepare os_example app_example w ''main.mp4'' ''o10.mp4'' =
     Inr (out_example, ''main.mp4_o10.mp4'',
          app_example\<lparr>current_processes := [''main.mp4_o10.mp4'' \<mapsto> 7]\<rparr>)"
  by (simp add: prepare_def os_example_def app_example_def resolve_output_dir_def
      output_name_def splitext_examples sanitize_example normalize_path_def
      ensure_directory_def falsy_def out_example_def Let_def)

lemma app_example_cp: "current_processes app_example = Map.empty"
  by (simp add: app_example_def)

lemma app_example_reset:
  "app_example\<lparr>current_processes := Map.empty\<rparr> = app_example"
  by (simp add: app_example_def)

lemma monitor_example:
  "monitor (ticks run_empty) (terminated run_empty) [] = Some (Inr (Some 0), [''frame=1''])"
  by (simp add: run_empty_def py_strip_def is_space_def)

text \<open>
  Claim C5 as stated fails where the deletion fails: the encoder exits with code 0 and
  leaves an empty file that cannot be deleted; the job raises, and the file is still there.
\<close>

theorem output_integrity_file_remains:
  "prepare os_example app_example world_locked ''main.mp4'' ''o10.mp4'' =
     Inr (out_example, ''main.mp4_o10.mp4'',
          app_example\<lparr>current_processes := [''main.mp4_o10.mp4'' \<mapsto> 7]\<rparr>) \<and>
   monitor (ticks run_empty) (terminated run_empty) [] = Some (Inr (Some 0), [''frame=1'']) \<and>
   \<not> close_raises run_empty \<and> produced run_empty = Some 0 \<and>
   process_video os_example run_empty app_example world_locked ''main.mp4'' ''o10.mp4'' =
     Some (Some OutputEmpty, app_example,
           \<lparr>files = [out_example \<mapsto> 0], undeletable = {out_example}\<rparr>) \<and>
   [out_example \<mapsto> (0::nat)] out_example \<noteq> None"
proof -
  have "supervise run_empty out_example ''main.mp4_o10.mp4''
          (app_example\<lparr>current_processes := [''main.mp4_o10.mp4'' \<mapsto> 7]\<rparr>) world_locked
        = Some \<lparr>raised = Some OutputEmpty, output_path = Some out_example,
                process_key = Some ''main.mp4_o10.mp4'', self_now = app_example,
                world_now = \<lparr>files = [out_example \<mapsto> 0], undeletable = {out_example}\<rparr>\<rparr>"
    using monitor_example
    by (simp add: supervise_def check_returncode_def verify_output_def os_path_getsize_def
        os_remove_def world_locked_def Let_def run_empty_def app_example_reset)
  then have "process_video os_example run_empty app_example world_locked ''main.mp4'' ''o10.mp4'' =
     Some (Some OutputEmpty, app_example,
           \<lparr>files = [out_example \<mapsto> 0], undeletable = {out_example}\<rparr>)"
    by (simp add: process_video_def process_video_try_def prepare_example except_clause_def
        finally_clause_def os_remove_def app_example_reset app_example_cp)
  then show ?thesis
    using prepare_example monitor_example by (simp add: run_empty_def)
qed

text \<open>The same job in a world where the empty file can be deleted.\<close>

theorem output_integrity_witness:
  "prepare os_example app_example world_empty ''main.mp4'' ''o10.mp4'' =
     Inr (out_example, ''main.mp4_o10.mp4'',
          app_example\<lparr>current_processes := [''main.mp4_o10.mp4'' \<mapsto> 7]\<rparr>) \<and>
   monitor (ticks run_empty) (terminated run_empty) [] = Some (Inr (Some 0), [''frame=1'']) \<and>
   \<not> close_raises run_empty \<and> produced run_empty = Some 0 \<and>
   out_example \<notin> undeletable world_empty \<and>
   (\<exists>self' w'. process_video os_example run_empty app_example world_empty ''main.mp4'' ''o10.mp4''
        = Some (Some OutputEmpty, self', w') \<and> files w' out_example = None)"
proof -
  have c: "\<not> close_raises run_empty" and p: "produced run_empty = None \<or> produced run_empty = Some 0"
    by (simp_all add: run_empty_def)
  show ?thesis
    using output_integrity [OF prepare_example monitor_example c p, of world_empty]
      prepare_example monitor_example
    by (auto simp: run_empty_def world_empty_def)
qed






section \<open>A batch run: ordered dispatch and the concurrency bound (claims C2 and C3)\<close>

subsection \<open>The invariants hold at the start and after every move\<close>

lemma ordered_init: "ordered (init k n)"
  by (simp add: ordered_def init_def running_def)

lemma gate_init: "gate k (init k n)"
  by (auto simp add: gate_def init_def in_with_def)

lemma entries_init: "entries key (init k n)"
  by (simp add: entries_def init_def)

lemma started_update:
  assumes inv: "(\<exists>j < length js. js ! j \<noteq> NotStarted \<and> js ! j \<noteq> Waiting) \<longrightarrow> 1 \<le> (k::nat)"
    and i: "i < length js"
    and p: "p \<noteq> NotStarted \<and> p \<noteq> Waiting \<longrightarrow> 1 \<le> k"
  shows "(\<exists>j < length (js[i := p]). js[i := p] ! j \<noteq> NotStarted \<and> js[i := p] ! j \<noteq> Waiting)
           \<longrightarrow> 1 \<le> k"
proof
  assume "\<exists>j < length (js[i := p]). js[i := p] ! j \<noteq> NotStarted \<and> js[i := p] ! j \<noteq> Waiting"
  then obtain j where j: "j < length js" "js[i := p] ! j \<noteq> NotStarted" "js[i := p] ! j \<noteq> Waiting"
    by auto
  show "1 \<le> k"
  proof (cases "j = i")
    case True
    then show ?thesis using j i p by simp
  next
    case False
    then have "js ! j \<noteq> NotStarted \<and> js ! j \<noteq> Waiting" using j by simp
    then show ?thesis using inv j(1) by blast
  qed
qed

lemma gate_same:
  assumes g: "gate k s" and i: "i < length (jobs s)"
    and w: "in_with p = in_with (jobs s ! i)"
    and p: "p \<noteq> NotStarted \<and> p \<noteq> Waiting \<longrightarrow> jobs s ! i \<noteq> NotStarted \<and> jobs s ! i \<noteq> Waiting"
    and j: "jobs s' = (jobs s)[i := p]" and pm: "permits s' = permits s"
    and h: "holders s' = holders s"
  shows "gate k s'"
proof -
  have g1: "finite (holders s)" and g2: "permits s + card (holders s) = k"
    and g3: "\<forall>i. i \<in> holders s \<longleftrightarrow> i < length (jobs s) \<and> in_with (jobs s ! i)"
    and g4: "(\<exists>i < length (jobs s). jobs s ! i \<noteq> NotStarted \<and> jobs s ! i \<noteq> Waiting) \<longrightarrow> 1 \<le> k"
    using g by (simp_all add: gate_def)
  have p': "p \<noteq> NotStarted \<and> p \<noteq> Waiting \<longrightarrow> 1 \<le> k" using p g4 i by blast
  have a: "\<forall>x. x \<in> holders s' \<longleftrightarrow> x < length (jobs s') \<and> in_with (jobs s' ! x)"
    using g3 i w by (simp add: h j nth_list_update)
  have b: "(\<exists>x < length (jobs s'). jobs s' ! x \<noteq> NotStarted \<and> jobs s' ! x \<noteq> Waiting) \<longrightarrow> 1 \<le> k"
    unfolding j using g4 i p' by (rule started_update)
  show ?thesis unfolding gate_def using g1 g2 a b by (simp add: h pm)
qed

lemma gate_enter:
  assumes g: "gate k s" and i: "i < length (jobs s)"
    and old: "\<not> in_with (jobs s ! i)" and new: "in_with p"
    and free: "0 < permits s"
    and j: "jobs s' = (jobs s)[i := p]" and pm: "permits s' = permits s - 1"
    and h: "holders s' = insert i (holders s)"
  shows "gate k s'"
proof -
  have g1: "finite (holders s)" and g2: "permits s + card (holders s) = k"
    and g3: "\<forall>i. i \<in> holders s \<longleftrightarrow> i < length (jobs s) \<and> in_with (jobs s ! i)"
    and g4: "(\<exists>i < length (jobs s). jobs s ! i \<noteq> NotStarted \<and> jobs s ! i \<noteq> Waiting) \<longrightarrow> 1 \<le> k"
    using g by (simp_all add: gate_def)
  have ni: "i \<notin> holders s" using g3 old by simp
  have k: "1 \<le> k" using g2 free by simp
  have c: "permits s' + card (holders s') = k"
    using g1 g2 ni free by (simp add: h pm)
  have a: "\<forall>x. x \<in> holders s' \<longleftrightarrow> x < length (jobs s') \<and> in_with (jobs s' ! x)"
    using g3 i new by (auto simp add: h j nth_list_update)
  show ?thesis unfolding gate_def using g1 c a k by (simp add: h)
qed

lemma gate_leave:
  assumes g: "gate k s" and i: "i < length (jobs s)"
    and old: "in_with (jobs s ! i)" and new: "\<not> in_with p"
    and j: "jobs s' = (jobs s)[i := p]" and pm: "permits s' = permits s + 1"
    and h: "holders s' = holders s - {i}"
  shows "gate k s'"
proof -
  have g1: "finite (holders s)" and g2: "permits s + card (holders s) = k"
    and g3: "\<forall>i. i \<in> holders s \<longleftrightarrow> i < length (jobs s) \<and> in_with (jobs s ! i)"
    and g4: "(\<exists>i < length (jobs s). jobs s ! i \<noteq> NotStarted \<and> jobs s ! i \<noteq> Waiting) \<longrightarrow> 1 \<le> k"
    using g by (simp_all add: gate_def)
  have ii: "i \<in> holders s" using g3 old i by simp
  then have cp: "0 < card (holders s)" using g1 by (auto simp: card_gt_0_iff)
  have k: "1 \<le> k" using g2 cp by simp
  have "card (holders s - {i}) = card (holders s) - 1" using ii g1 by simp
  then have c: "permits s' + card (holders s') = k"
    using g2 cp by (simp add: h pm)
  have a: "\<forall>x. x \<in> holders s' \<longleftrightarrow> x < length (jobs s') \<and> in_with (jobs s' ! x)"
    using g3 i new by (auto simp add: h j nth_list_update)
  show ?thesis unfolding gate_def using g1 c a k by (simp add: h)
qed

lemma gate_frame:
  assumes g: "gate k s" and "jobs s' = jobs s" "permits s' = permits s" "holders s' = holders s"
  shows "gate k s'"
  using assms by (simp add: gate_def)



lemma ordered_cong:
  assumes "jobs s' = jobs s" and "driver s' = driver s"
  shows "ordered s' = ordered s"
  unfolding ordered_def assms(1) assms(2) ..

lemma ordered_job:
  assumes o: "ordered s" and i: "i < length (jobs s)" and r: "running (jobs s ! i)"
    and p: "p \<noteq> NotStarted"
    and j: "jobs s' = (jobs s)[i := p]" and d: "driver s' = driver s"
  shows "ordered s'"
proof (cases "driver s")
  case (Fetch m)
  then have "\<not> running (jobs s ! i)" using o i by (simp add: ordered_def)
  then show ?thesis using r by simp
next
  case (Join m)
  then have m: "m < length (jobs s)"
    and others: "\<forall>x < length (jobs s). x \<noteq> m \<longrightarrow> \<not> running (jobs s ! x)"
    and later: "\<forall>x < length (jobs s). m < x \<longrightarrow> jobs s ! x = NotStarted"
    using o by (simp_all add: ordered_def)
  have im: "i = m" using others i r by blast
  have a: "\<forall>x < length (jobs s'). x \<noteq> m \<longrightarrow> \<not> running (jobs s' ! x)"
    using others by (simp add: j im)
  have b: "\<forall>x < length (jobs s'). m < x \<longrightarrow> jobs s' ! x = NotStarted"
    using later by (simp add: j im)
  have c: "m < length (jobs s')" using m by (simp add: j)
  have d': "driver s' = Join m" using d Join by simp
  show ?thesis
    unfolding ordered_def d' using a b c by simp
next
  case Stopped
  then have one: "\<forall>a < length (jobs s). \<forall>b < length (jobs s).
             running (jobs s ! a) \<and> running (jobs s ! b) \<longrightarrow> a = b"
    using o by (simp add: ordered_def)
  have others: "\<forall>x < length (jobs s). running (jobs s ! x) \<longrightarrow> x = i"
    using one i r by blast
  have two: "\<forall>a < length (jobs s'). \<forall>b < length (jobs s').
             running (jobs s' ! a) \<and> running (jobs s' ! b) \<longrightarrow> a = b"
  proof (intro allI impI)
    fix a b
    assume a: "a < length (jobs s')" and b: "b < length (jobs s')"
      and ab: "running (jobs s' ! a) \<and> running (jobs s' ! b)"
    have la: "a < length (jobs s)" and lb: "b < length (jobs s)" using a b by (simp_all add: j)
    have "a = i"
    proof (rule ccontr)
      assume ne: "a \<noteq> i"
      then have "jobs s' ! a = jobs s ! a" by (simp add: j)
      then show False using ab others la ne by auto
    qed
    moreover have "b = i"
    proof (rule ccontr)
      assume ne: "b \<noteq> i"
      then have "jobs s' ! b = jobs s ! b" by (simp add: j)
      then show False using ab others lb ne by auto
    qed
    ultimately show "a = b" by simp
  qed
  have d': "driver s' = Stopped" using d Stopped by simp
  show ?thesis unfolding ordered_def d' using two by simp
qed

lemma ordered_stopped:
  assumes o: "ordered s" and j: "jobs s' = jobs s" and d: "driver s' = Stopped"
  shows "ordered s'"
proof -
  have one: "\<forall>a < length (jobs s). \<forall>b < length (jobs s).
             running (jobs s ! a) \<and> running (jobs s ! b) \<longrightarrow> a = b"
  proof (cases "driver s")
    case (Fetch m)
    then show ?thesis using o by (simp add: ordered_def)
  next
    case (Join m)
    then have others: "\<forall>x < length (jobs s). x \<noteq> m \<longrightarrow> \<not> running (jobs s ! x)"
      using o by (simp_all add: ordered_def)
    show ?thesis
    proof (intro allI impI)
      fix a b
      assume a: "a < length (jobs s)" and b: "b < length (jobs s)"
        and ab: "running (jobs s ! a) \<and> running (jobs s ! b)"
      have "a = m" using others a ab by blast
      moreover have "b = m" using others b ab by blast
      ultimately show "a = b" by simp
    qed
  next
    case Stopped
    then show ?thesis using o by (simp add: ordered_def)
  qed
  show ?thesis unfolding ordered_def d j using one by simp
qed


lemma ordered_step:
  assumes o: "ordered s" and st: "step key s a s'"
  shows "ordered s'"
  using st
proof (cases rule: step.cases)
  case (Break i)
  show ?thesis by (rule ordered_stopped[OF o]) (simp_all add: Break driver_finally_def)
next
  case (Skip i)
  have a: "\<forall>j < length (jobs s). \<not> running (jobs s ! j)"
    and b: "\<forall>j < length (jobs s). i \<le> j \<longrightarrow> jobs s ! j = NotStarted"
    using Skip o by (simp_all add: ordered_def)
  have b': "\<forall>j < length (jobs s). Suc i \<le> j \<longrightarrow> jobs s ! j = NotStarted"
    using b by simp
  show ?thesis using a b' by (simp add: ordered_def Skip(2))
next
  case (Dispatch i)
  have a: "\<forall>j < length (jobs s). \<not> running (jobs s ! j)"
    and b: "\<forall>j < length (jobs s). i \<le> j \<longrightarrow> jobs s ! j = NotStarted"
    using Dispatch o by (simp_all add: ordered_def)
  show ?thesis using a b Dispatch(4) by (simp add: ordered_def Dispatch(2) nth_list_update)
next
  case (Joined i)
  have others: "\<forall>j < length (jobs s). j \<noteq> i \<longrightarrow> \<not> running (jobs s ! j)"
    and later: "\<forall>j < length (jobs s). i < j \<longrightarrow> jobs s ! j = NotStarted"
    using Joined o by (simp_all add: ordered_def)
  have fin: "\<not> running (jobs s ! i)" using Joined by (simp add: running_def)
  have a: "\<forall>j < length (jobs s). \<not> running (jobs s ! j)"
  proof (intro allI impI)
    fix j assume "j < length (jobs s)"
    then show "\<not> running (jobs s ! j)" using others fin by (cases "j = i") simp_all
  qed
  have b: "\<forall>j < length (jobs s). Suc i \<le> j \<longrightarrow> jobs s ! j = NotStarted"
    using later by simp
  show ?thesis using a b by (simp add: ordered_def Joined(2))
next
  case Exhausted
  show ?thesis by (rule ordered_stopped[OF o]) (simp_all add: Exhausted driver_finally_def)
next
  case DriverFails
  show ?thesis by (rule ordered_stopped[OF o]) (simp_all add: DriverFails driver_finally_def)
next
  case (Acquire i)
  show ?thesis
    by (rule ordered_job[OF o, of i Holding]) (simp_all add: Acquire running_def)
next
  case (LeaveEarly i)
  show ?thesis
    by (rule ordered_job[OF o, of i LeavingUnbound]) (simp_all add: LeaveEarly running_def)
next
  case (Register i)
  show ?thesis
    by (rule ordered_job[OF o, of i Registered]) (simp_all add: Register running_def)
next
  case (Unregister i)
  show ?thesis
    by (rule ordered_job[OF o, of i Unregistered]) (simp_all add: Unregister running_def)
next
  case (CloseFails i)
  show ?thesis
    by (rule ordered_job[OF o, of i LeavingBound]) (simp_all add: CloseFails running_def)
next
  case (Release i)
  show ?thesis
    by (rule ordered_job[OF o, of i LeavingBound]) (simp_all add: Release running_def)
next
  case (FinishUnbound i)
  show ?thesis
    by (rule ordered_job[OF o, of i Finished]) (simp_all add: FinishUnbound running_def)
next
  case (FinishBound i)
  show ?thesis
    by (rule ordered_job[OF o, of i Finished]) (simp_all add: FinishBound running_def)
next
  case Stop
  have "ordered s' = ordered s" by (rule ordered_cong) (simp_all add: Stop)
  then show ?thesis using o by simp
qed

lemma gate_step:
  assumes g: "gate k s" and o: "ordered s" and st: "step key s a s'"
  shows "gate k s'"
  using st
proof (cases rule: step.cases)
  case (Break i)
  show ?thesis by (rule gate_frame[OF g]) (simp_all add: Break driver_finally_def)
next
  case (Skip i)
  show ?thesis by (rule gate_frame[OF g]) (simp_all add: Skip)
next
  case (Dispatch i)
  have ns: "jobs s ! i = NotStarted" using Dispatch o by (simp add: ordered_def)
  show ?thesis
    by (rule gate_same[OF g, of i Waiting]) (simp_all add: Dispatch ns in_with_def)
next
  case (Joined i)
  show ?thesis by (rule gate_frame[OF g]) (simp_all add: Joined)
next
  case Exhausted
  show ?thesis by (rule gate_frame[OF g]) (simp_all add: Exhausted driver_finally_def)
next
  case DriverFails
  show ?thesis by (rule gate_frame[OF g]) (simp_all add: DriverFails driver_finally_def)
next
  case (Acquire i)
  show ?thesis
    by (rule gate_enter[OF g, of i Holding]) (simp_all add: Acquire in_with_def)
next
  case (LeaveEarly i)
  show ?thesis
    by (rule gate_leave[OF g, of i LeavingUnbound]) (simp_all add: LeaveEarly in_with_def)
next
  case (Register i)
  show ?thesis
    by (rule gate_same[OF g, of i Registered]) (simp_all add: Register in_with_def)
next
  case (Unregister i)
  show ?thesis
    by (rule gate_same[OF g, of i Unregistered]) (simp_all add: Unregister in_with_def)
next
  case (CloseFails i)
  show ?thesis
    by (rule gate_leave[OF g, of i LeavingBound]) (simp_all add: CloseFails in_with_def)
next
  case (Release i)
  show ?thesis
    by (rule gate_leave[OF g, of i LeavingBound]) (simp_all add: Release in_with_def)
next
  case (FinishUnbound i)
  show ?thesis
    by (rule gate_same[OF g, of i Finished]) (simp_all add: FinishUnbound in_with_def)
next
  case (FinishBound i)
  show ?thesis
    by (rule gate_same[OF g, of i Finished]) (simp_all add: FinishBound in_with_def)
next
  case Stop
  show ?thesis by (rule gate_frame[OF g]) (simp_all add: Stop)
qed


lemma entries_gain:
  assumes e: "entries key s" and i: "i < length (jobs s)" and p: "has_entry p"
    and j: "jobs s' = (jobs s)[i := p]"
    and a: "dom (active s') \<subseteq> insert (key i) (dom (active s))"
  shows "entries key s'"
proof -
  have sub: "dom (active s) \<subseteq> key ` {x. x < length (jobs s) \<and> has_entry (jobs s ! x)}"
    using e by (simp add: entries_def)
  have "dom (active s') \<subseteq> key ` {x. x < length (jobs s') \<and> has_entry (jobs s' ! x)}"
  proof
    fix x assume x: "x \<in> dom (active s')"
    show "x \<in> key ` {x. x < length (jobs s') \<and> has_entry (jobs s' ! x)}"
    proof (cases "x = key i")
      case True
      have "i \<in> {x. x < length (jobs s') \<and> has_entry (jobs s' ! x)}"
        using i p by (simp add: j)
      then show ?thesis using True by blast
    next
      case False
      then have "x \<in> dom (active s)" using a x by blast
      then obtain y where y: "y < length (jobs s)" "has_entry (jobs s ! y)" "x = key y"
        using sub by blast
      have "y \<in> {x. x < length (jobs s') \<and> has_entry (jobs s' ! x)}"
        using y i p by (simp add: j nth_list_update)
      then show ?thesis using y(3) by blast
    qed
  qed
  then show ?thesis by (simp add: entries_def)
qed

lemma entries_keep:
  assumes e: "entries key s" and i: "i < length (jobs s)"
    and old: "\<not> has_entry (jobs s ! i)"
    and j: "jobs s' = (jobs s)[i := p]"
    and a: "dom (active s') \<subseteq> dom (active s)"
  shows "entries key s'"
proof -
  have sub: "dom (active s) \<subseteq> key ` {x. x < length (jobs s) \<and> has_entry (jobs s ! x)}"
    using e by (simp add: entries_def)
  have "dom (active s') \<subseteq> key ` {x. x < length (jobs s') \<and> has_entry (jobs s' ! x)}"
  proof
    fix x assume x: "x \<in> dom (active s')"
    then have "x \<in> dom (active s)" using a by blast
    then obtain y where y: "y < length (jobs s)" "has_entry (jobs s ! y)" "x = key y"
      using sub by blast
    have "y \<noteq> i" using y(2) old by auto
    then have "y \<in> {x. x < length (jobs s') \<and> has_entry (jobs s' ! x)}"
      using y by (simp add: j)
    then show "x \<in> key ` {x. x < length (jobs s') \<and> has_entry (jobs s' ! x)}"
      using y(3) by blast
  qed
  then show ?thesis by (simp add: entries_def)
qed

lemma entries_drop:
  assumes e: "entries key s" and i: "i < length (jobs s)"
    and j: "jobs s' = (jobs s)[i := p]"
    and a: "dom (active s') \<subseteq> dom (active s) - {key i}"
  shows "entries key s'"
proof -
  have sub: "dom (active s) \<subseteq> key ` {x. x < length (jobs s) \<and> has_entry (jobs s ! x)}"
    using e by (simp add: entries_def)
  have "dom (active s') \<subseteq> key ` {x. x < length (jobs s') \<and> has_entry (jobs s' ! x)}"
  proof
    fix x assume x: "x \<in> dom (active s')"
    then have xd: "x \<in> dom (active s)" and ne: "x \<noteq> key i" using a by blast+
    obtain y where y: "y < length (jobs s)" "has_entry (jobs s ! y)" "x = key y"
      using sub xd by blast
    have "y \<noteq> i" using y(3) ne by auto
    then have "y \<in> {x. x < length (jobs s') \<and> has_entry (jobs s' ! x)}"
      using y by (simp add: j)
    then show "x \<in> key ` {x. x < length (jobs s') \<and> has_entry (jobs s' ! x)}"
      using y(3) by blast
  qed
  then show ?thesis by (simp add: entries_def)
qed

lemma entries_empty:
  assumes "active s' = Map.empty"
  shows "entries key s'"
  using assms by (simp add: entries_def)

lemma entries_frame:
  assumes "entries key s" and "jobs s' = jobs s" and "active s' = active s"
  shows "entries key s'"
  using assms(1) unfolding entries_def assms(2) assms(3) .

lemma entries_step:
  assumes e: "entries key s" and o: "ordered s" and st: "step key s a s'"
  shows "entries key s'"
  using st
proof (cases rule: step.cases)
  case (Break i)
  show ?thesis by (rule entries_empty) (simp add: Break driver_finally_def)
next
  case (Skip i)
  show ?thesis by (rule entries_frame[OF e]) (simp_all add: Skip)
next
  case (Dispatch i)
  have ns: "jobs s ! i = NotStarted" using Dispatch o by (simp add: ordered_def)
  show ?thesis
    by (rule entries_keep[OF e, of i _ Waiting]) (simp_all add: Dispatch ns has_entry_def)
next
  case (Joined i)
  show ?thesis by (rule entries_frame[OF e]) (simp_all add: Joined)
next
  case Exhausted
  show ?thesis by (rule entries_empty) (simp add: Exhausted driver_finally_def)
next
  case DriverFails
  show ?thesis by (rule entries_empty) (simp add: DriverFails driver_finally_def)
next
  case (Acquire i)
  show ?thesis
    by (rule entries_keep[OF e, of i _ Holding]) (simp_all add: Acquire has_entry_def)
next
  case (LeaveEarly i)
  show ?thesis
    by (rule entries_keep[OF e, of i _ LeavingUnbound]) (simp_all add: LeaveEarly has_entry_def)
next
  case (Register i)
  show ?thesis
    by (rule entries_gain[OF e, of i Registered]) (simp_all add: Register has_entry_def)
next
  case (Unregister i)
  show ?thesis
    by (rule entries_drop[OF e, of i _ Unregistered]) (auto simp add: Unregister)
next
  case (CloseFails i)
  show ?thesis
    by (rule entries_gain[OF e, of i LeavingBound]) (auto simp add: CloseFails has_entry_def)
next
  case (Release i)
  show ?thesis
    by (rule entries_gain[OF e, of i LeavingBound]) (auto simp add: Release has_entry_def)
next
  case (FinishUnbound i)
  show ?thesis
    by (rule entries_keep[OF e, of i _ Finished]) (simp_all add: FinishUnbound has_entry_def)
next
  case (FinishBound i)
  show ?thesis
    by (rule entries_drop[OF e, of i _ Finished]) (auto simp add: FinishBound)
next
  case Stop
  show ?thesis by (rule entries_empty) (simp add: Stop)
qed

lemma reachable_invariants:
  assumes "reachable key k n s"
  shows "ordered s \<and> gate k s \<and> entries key s"
  using assms
proof (induction rule: reachable.induct)
  case start
  show ?case using ordered_init gate_init entries_init by blast
next
  case (move s a s')
  then show ?case using ordered_step gate_step entries_step by blast
qed


subsection \<open>The claims\<close>

inductive_cases DispatchE: "step key s (Dispatch i) s'"
inductive_cases RegisterE: "step key s (Register i) s'"

lemma ordered_one_running:
  assumes o: "ordered s"
    and a: "a < length (jobs s)" and b: "b < length (jobs s)"
    and ra: "running (jobs s ! a)" and rb: "running (jobs s ! b)"
  shows "a = b"
proof (cases "driver s")
  case (Fetch m)
  then have "\<not> running (jobs s ! a)" using o a by (simp add: ordered_def)
  then show ?thesis using ra by simp
next
  case (Join m)
  then have others: "\<forall>x < length (jobs s). x \<noteq> m \<longrightarrow> \<not> running (jobs s ! x)"
    using o by (simp_all add: ordered_def)
  have "a = m" using others a ra by blast
  moreover have "b = m" using others b rb by blast
  ultimately show ?thesis by simp
next
  case Stopped
  then have "\<forall>a < length (jobs s). \<forall>b < length (jobs s).
             running (jobs s ! a) \<and> running (jobs s ! b) \<longrightarrow> a = b"
    using o by (simp add: ordered_def)
  then show ?thesis using a b ra rb by blast
qed

text \<open>
  Claim C2: in every state that a batch run reaches, at most one job thread is running.
  When the driver starts the job of the main video \<open>i\<close>, no job is running (each job
  started before has ended, by a return or by an exception) and no job from \<open>i\<close> on has
  been started, so the jobs are started in the order of the list; while the driver waits
  for job \<open>i\<close>, no other job runs and no later job has been started.
\<close>

theorem ordered_dispatch:
  assumes "reachable key k n s"
  shows "(\<forall>i < length (jobs s). \<forall>j < length (jobs s).
            running (jobs s ! i) \<and> running (jobs s ! j) \<longrightarrow> i = j) \<and>
         (\<forall>i s'. step key s (Dispatch i) s' \<longrightarrow>
            (\<forall>j < length (jobs s). \<not> running (jobs s ! j)) \<and>
            (\<forall>j < length (jobs s). i \<le> j \<longrightarrow> jobs s ! j = NotStarted)) \<and>
         (\<forall>i. driver s = Join i \<longrightarrow>
            i < length (jobs s) \<and>
            (\<forall>j < length (jobs s). j \<noteq> i \<longrightarrow> \<not> running (jobs s ! j)) \<and>
            (\<forall>j < length (jobs s). i < j \<longrightarrow> jobs s ! j = NotStarted))"
proof -
  have o: "ordered s" using reachable_invariants[OF assms] by simp
  have a: "\<forall>i < length (jobs s). \<forall>j < length (jobs s).
            running (jobs s ! i) \<and> running (jobs s ! j) \<longrightarrow> i = j"
    using ordered_one_running[OF o] by blast
  have b: "(\<forall>j < length (jobs s). \<not> running (jobs s ! j)) \<and>
           (\<forall>j < length (jobs s). i \<le> j \<longrightarrow> jobs s ! j = NotStarted)"
    if "step key s (Dispatch i) s'" for i s'
  proof -
    have "driver s = Fetch i" using that by (rule DispatchE)
    then show ?thesis using o by (simp add: ordered_def)
  qed
  have c: "i < length (jobs s) \<and>
            (\<forall>j < length (jobs s). j \<noteq> i \<longrightarrow> \<not> running (jobs s ! j)) \<and>
            (\<forall>j < length (jobs s). i < j \<longrightarrow> jobs s ! j = NotStarted)"
    if "driver s = Join i" for i
    using that o by (simp add: ordered_def)
  show ?thesis using a b c by blast
qed

text \<open>
  Claim C3: in every state that a batch run with \<open>k\<close> permits reaches,
  \<open>current_processes\<close> has at most \<open>k\<close> entries.  The permits left and the jobs that hold
  one add up to \<open>k\<close>, the holders are the jobs inside the \<open>with\<close> block, and a job that
  registers its process (line 806) is one of the holders.
\<close>

theorem concurrency_bound:
  assumes "reachable key k n s"
  shows "card (dom (active s)) \<le> k \<and>
         permits s + card (holders s) = k \<and>
         (\<forall>i. i \<in> holders s \<longleftrightarrow> i < length (jobs s) \<and> in_with (jobs s ! i)) \<and>
         (\<forall>i s'. step key s (Register i) s' \<longrightarrow> i \<in> holders s)"
proof -
  have o: "ordered s" and g: "gate k s" and e: "entries key s"
    using reachable_invariants[OF assms] by simp_all
  have g2: "permits s + card (holders s) = k"
    and g3: "\<forall>i. i \<in> holders s \<longleftrightarrow> i < length (jobs s) \<and> in_with (jobs s ! i)"
    and g4: "(\<exists>i < length (jobs s). jobs s ! i \<noteq> NotStarted \<and> jobs s ! i \<noteq> Waiting) \<longrightarrow> 1 \<le> k"
    using g by (simp_all add: gate_def)
  have sub: "dom (active s) \<subseteq> key ` {x. x < length (jobs s) \<and> has_entry (jobs s ! x)}"
    using e by (simp add: entries_def)
  have bound: "card (dom (active s)) \<le> k"
  proof (cases "dom (active s) = {}")
    case True
    then show ?thesis by simp
  next
    case False
    then obtain x where "x \<in> dom (active s)" by blast
    then obtain i where i: "i < length (jobs s)" "has_entry (jobs s ! i)"
      using sub by blast
    have ri: "running (jobs s ! i)" using i(2) by (auto simp: has_entry_def running_def)
    have "{x. x < length (jobs s) \<and> has_entry (jobs s ! x)} \<subseteq> {i}"
    proof
      fix y assume "y \<in> {x. x < length (jobs s) \<and> has_entry (jobs s ! x)}"
      then have y: "y < length (jobs s)" "has_entry (jobs s ! y)" by simp_all
      have "running (jobs s ! y)" using y(2) by (auto simp: has_entry_def running_def)
      then have "y = i" using ordered_one_running[OF o y(1) i(1)] ri by simp
      then show "y \<in> {i}" by simp
    qed
    then have "dom (active s) \<subseteq> {key i}" using sub by blast
    then have "card (dom (active s)) \<le> card {key i}" by (intro card_mono) simp_all
    then have c1: "card (dom (active s)) \<le> 1" by simp
    have "jobs s ! i \<noteq> NotStarted \<and> jobs s ! i \<noteq> Waiting"
      using i(2) by (auto simp: has_entry_def)
    then have "1 \<le> k" using g4 i(1) by blast
    then show ?thesis using c1 by simp
  qed
  have reg: "i \<in> holders s" if "step key s (Register i) s'" for i s'
  proof -
    have "i < length (jobs s) \<and> jobs s ! i = Holding"
      using that by (rule RegisterE) simp
    then show ?thesis using g3 by (simp add: in_with_def)
  qed
  show ?thesis using bound g2 g3 reg by blast
qed


subsection \<open>An example run\<close>

lemma step_example_dispatch: "step key_example (init 3 2) (Dispatch 0) batch_dispatched"
proof -
  have "step key_example (init 3 2) (Dispatch 0)
          ((init 3 2)\<lparr>driver := Join 0, jobs := (jobs (init 3 2))[0 := Waiting]\<rparr>)"
    by (rule step.Dispatch) (simp_all add: init_def)
  moreover have "(init 3 2)\<lparr>driver := Join 0, jobs := (jobs (init 3 2))[0 := Waiting]\<rparr>
                 = batch_dispatched"
    by (simp add: init_def batch_dispatched_def numeral_2_eq_2)
  ultimately show ?thesis by simp
qed

lemma step_example_acquire: "step key_example batch_dispatched (Acquire 0) batch_holding"
proof -
  have "step key_example batch_dispatched (Acquire 0)
          (batch_dispatched\<lparr>jobs := (jobs batch_dispatched)[0 := Holding],
             permits := permits batch_dispatched - 1,
             holders := insert 0 (holders batch_dispatched)\<rparr>)"
    by (rule step.Acquire) (simp_all add: batch_dispatched_def)
  moreover have "batch_dispatched\<lparr>jobs := (jobs batch_dispatched)[0 := Holding],
             permits := permits batch_dispatched - 1,
             holders := insert 0 (holders batch_dispatched)\<rparr> = batch_holding"
    by (simp add: batch_dispatched_def batch_holding_def)
  ultimately show ?thesis by simp
qed

lemma step_example_register: "step key_example batch_holding (Register 0) batch_registered"
proof -
  have "step key_example batch_holding (Register 0)
          (batch_holding\<lparr>jobs := (jobs batch_holding)[0 := Registered],
             active := (active batch_holding)(key_example 0 \<mapsto> 0)\<rparr>)"
    by (rule step.Register) (simp_all add: batch_holding_def)
  moreover have "batch_holding\<lparr>jobs := (jobs batch_holding)[0 := Registered],
             active := (active batch_holding)(key_example 0 \<mapsto> 0)\<rparr> = batch_registered"
    by (simp add: batch_holding_def batch_registered_def key_example_def)
  ultimately show ?thesis by simp
qed

lemma reachable_examples:
  "reachable key_example 3 2 (init 3 2)"
  "reachable key_example 3 2 batch_dispatched"
  "reachable key_example 3 2 batch_holding"
  "reachable key_example 3 2 batch_registered"
proof -
  show a: "reachable key_example 3 2 (init 3 2)" by (rule reachable.start)
  show b: "reachable key_example 3 2 batch_dispatched"
    using a step_example_dispatch by (rule reachable.move)
  show c: "reachable key_example 3 2 batch_holding"
    using b step_example_acquire by (rule reachable.move)
  show "reachable key_example 3 2 batch_registered"
    using c step_example_register by (rule reachable.move)
qed

text \<open>
  At the start the first job can be dispatched; once it has registered its process the
  driver waits for it, and it is the only job running.
\<close>

theorem ordered_dispatch_witness:
  "reachable key_example 3 2 (init 3 2) \<and>
   step key_example (init 3 2) (Dispatch 0) batch_dispatched \<and>
   jobs (init 3 2) ! 0 = NotStarted \<and> jobs (init 3 2) ! 1 = NotStarted \<and>
   reachable key_example 3 2 batch_registered \<and>
   driver batch_registered = Join 0 \<and>
   running (jobs batch_registered ! 0) \<and> \<not> running (jobs batch_registered ! 1)"
  using ordered_dispatch [OF reachable_examples(1)] ordered_dispatch [OF reachable_examples(4)]
    reachable_examples step_example_dispatch
  by (simp add: batch_registered_def init_def running_def numeral_2_eq_2)

text \<open>The first job holds a permit when it registers; there is then one entry.\<close>

theorem concurrency_bound_witness:
  "reachable key_example 3 2 batch_holding \<and>
   step key_example batch_holding (Register 0) batch_registered \<and>
   0 \<in> holders batch_holding \<and>
   reachable key_example 3 2 batch_registered \<and>
   card (dom (active batch_registered)) = 1 \<and> (1::nat) \<le> 3 \<and>
   permits batch_registered + card (holders batch_registered) = 3"
  using concurrency_bound [OF reachable_examples(3)] concurrency_bound [OF reachable_examples(4)]
    reachable_examples step_example_register
  by (simp add: batch_registered_def batch_holding_def)

end
